theory Spec2Isabelle
  imports Complex_Main "HOL-Library.Word" "HOL-Library.Monad_Syntax" "HOL-Library.Signed_Division"
begin

section \<open>Data model of image.c\<close>

text \<open>
  \<^verbatim>\<open>pixel_info\<close> is three \<^verbatim>\<open>uint8_t\<close> channels in the order blue, green, red;
  \<^verbatim>\<open>image_info\<close> holds the two \<^verbatim>\<open>int\<close> dimensions and the pixel buffer. The buffer
  that \<^verbatim>\<open>pixel_data\<close> points to is modelled by its contents, a list of pixels in row-major
  order; an access outside the buffer has no defined result and is the value \<open>None\<close>.
\<close>

record pixel_info =
  blue :: "8 word"
  green :: "8 word"
  red :: "8 word"

record image_info =
  width :: int
  height :: int
  pixel_data :: "pixel_info list"

definition MAX_COLOR :: int where
  "MAX_COLOR = 255"

definition NUM_THREADS :: int where
  "NUM_THREADS = 20"

definition HIGH_PASS_THRESHOLD :: int where
  "HIGH_PASS_THRESHOLD = 60"

subsection \<open>C arithmetic\<close>

text \<open>
  A C \<^verbatim>\<open>int\<close> has 32 bits. An \<^verbatim>\<open>int\<close> operation whose mathematical result is not
  representable is undefined behaviour: \<open>c_int\<close> returns \<open>None\<close> there. The conversion of a
  \<^verbatim>\<open>double\<close> to \<^verbatim>\<open>int\<close> discards the fractional part (it truncates toward zero) and is
  undefined when the integral part is not representable.

  A \<^verbatim>\<open>double\<close> is modelled by the real number it denotes. The floating-point product
  of a channel value (converted to \<^verbatim>\<open>double\<close>) with a kernel weight is a parameter
  \<open>fmul\<close> of the model: \<open>fmul v w\<close> is the \<^verbatim>\<open>double\<close> that \<^verbatim>\<open>v * w\<close> evaluates to. In
  binary64 arithmetic it is the exact product \<open>v * w\<close> rounded to the nearest
  \<^verbatim>\<open>double\<close>, hence the exact product itself whenever that is a \<^verbatim>\<open>double\<close>, which is
  the case for every weight that is a dyadic rational with a significand of at most 45
  bits. \<open>exact_product\<close> is that instance.
\<close>

type_synonym multiplier = "int \<Rightarrow> real \<Rightarrow> real"

definition exact_product :: multiplier where
  "exact_product v w = real_of_int v * w"

definition INT_MAX :: int where
  "INT_MAX = 2147483647"

definition INT_MIN :: int where
  "INT_MIN = - 2147483648"

definition c_int :: "int \<Rightarrow> int option" where
  "c_int i = (if INT_MIN \<le> i \<and> i \<le> INT_MAX then Some i else None)"

definition trunc :: "real \<Rightarrow> int" where
  "trunc d = (if 0 \<le> d then \<lfloor>d\<rfloor> else \<lceil>d\<rceil>)"

definition double_to_int :: "real \<Rightarrow> int option" where
  "double_to_int d = c_int (trunc d)"

text \<open>\<^verbatim>\<open>(uint8_t)v\<close> for an \<^verbatim>\<open>int\<close> v: reduction modulo 256.\<close>

definition to_uint8 :: "int \<Rightarrow> 8 word" where
  "to_uint8 v = word_of_int v"

subsection \<open>Buffers and loops\<close>

text \<open>
  \<open>load buf i\<close> is the read \<^verbatim>\<open>buf[i]\<close> and \<open>store buf i p\<close> the write \<^verbatim>\<open>buf[i] = p\<close>;
  both are undefined outside the buffer.
\<close>

definition load :: "pixel_info list \<Rightarrow> int \<Rightarrow> pixel_info option" where
  "load buf i = (if 0 \<le> i \<and> i < int (length buf) then Some (buf ! nat i) else None)"

definition store :: "pixel_info list \<Rightarrow> int \<Rightarrow> pixel_info \<Rightarrow> pixel_info list option" where
  "store buf i p = (if 0 \<le> i \<and> i < int (length buf) then Some (buf[nat i := p]) else None)"

text \<open>
  \<^verbatim>\<open>malloc\<close> is a parameter of the model as well: for a number of bytes it returns
  \<open>None\<close> (a null pointer) or a block with its indeterminate initial contents.
\<close>

type_synonym allocator = "int \<Rightarrow> pixel_info list option"

text \<open>
  A \<^verbatim>\<open>for\<close> loop whose counter runs through the values of a list, threading the state
  through the body; the loop stops with \<open>None\<close> as soon as the body is undefined.
  \<^verbatim>\<open>for (i = a; i < b; i++)\<close> is \<open>for_each [a..b - 1]\<close> and
  \<^verbatim>\<open>for (i = a; i <= b; i++)\<close> is \<open>for_each [a..b]\<close>.
\<close>

fun for_each :: "int list \<Rightarrow> (int \<Rightarrow> 's \<Rightarrow> 's option) \<Rightarrow> 's \<Rightarrow> 's option" where
  "for_each [] body s = Some s"
| "for_each (i # is) body s = (case body i s of None \<Rightarrow> None | Some s' \<Rightarrow> for_each is body s')"

section \<open>Pointwise transforms\<close>

text \<open>\<^verbatim>\<open>invert\<close> (lines 339-348): every channel becomes \<^verbatim>\<open>MAX_COLOR\<close> minus its value.\<close>

definition invert_pixel :: "pixel_info \<Rightarrow> pixel_info" where
  "invert_pixel p =
     p\<lparr>red := to_uint8 (MAX_COLOR - uint (red p)),
       green := to_uint8 (MAX_COLOR - uint (green p)),
       blue := to_uint8 (MAX_COLOR - uint (blue p))\<rparr>"

definition invert :: "image_info \<Rightarrow> image_info option" where
  "invert info = do {
     image_size \<leftarrow> c_int (width info * height info);
     pd \<leftarrow> for_each [0..image_size - 1]
             (\<lambda>i pd. do { p \<leftarrow> load pd i; store pd i (invert_pixel p) })
             (pixel_data info);
     Some (info\<lparr>pixel_data := pd\<rparr>)
   }"

text \<open>
  \<^verbatim>\<open>set_dim_to_black\<close> (lines 444-458): the average of the three channels is computed in
  \<^verbatim>\<open>int\<close>, divided by 3 with C's truncating division, converted to \<^verbatim>\<open>uint8_t\<close> and
  compared with \<^verbatim>\<open>HIGH_PASS_THRESHOLD\<close>.
\<close>

definition average :: "pixel_info \<Rightarrow> 8 word" where
  "average p = to_uint8 ((uint (red p) + uint (green p) + uint (blue p)) sdiv 3)"

definition dim_pixel :: "pixel_info \<Rightarrow> pixel_info" where
  "dim_pixel p =
     (if uint (average p) < HIGH_PASS_THRESHOLD
      then p\<lparr>red := 0, green := 0, blue := 0\<rparr>
      else p)"

definition set_dim_to_black :: "image_info \<Rightarrow> image_info option" where
  "set_dim_to_black info = do {
     image_size \<leftarrow> c_int (width info * height info);
     pd \<leftarrow> for_each [0..image_size - 1]
             (\<lambda>i pd. do { p \<leftarrow> load pd i; store pd i (dim_pixel p) })
             (pixel_data info);
     Some (info\<lparr>pixel_data := pd\<rparr>)
   }"

text \<open>\<^verbatim>\<open>greyscale\<close> (lines 326-337): every channel becomes the average.\<close>

definition greyscale_pixel :: "pixel_info \<Rightarrow> pixel_info" where
  "greyscale_pixel p = p\<lparr>red := average p, green := average p, blue := average p\<rparr>"

definition greyscale :: "image_info \<Rightarrow> image_info option" where
  "greyscale info = do {
     image_size \<leftarrow> c_int (width info * height info);
     pd \<leftarrow> for_each [0..image_size - 1]
             (\<lambda>i pd. do { p \<leftarrow> load pd i; store pd i (greyscale_pixel p) })
             (pixel_data info);
     Some (info\<lparr>pixel_data := pd\<rparr>)
   }"

section \<open>The convolution engine\<close>

text \<open>
  A kernel is \<^verbatim>\<open>double kernel[3][3]\<close>: three rows of three weights. \<open>kernel_at k m_y m_x\<close>
  is \<^verbatim>\<open>kernel[m_y][m_x]\<close>, undefined for an index outside 0..2.
\<close>

type_synonym kernel_row = "real \<times> real \<times> real"

type_synonym kernel = "kernel_row \<times> kernel_row \<times> kernel_row"

fun nth3 :: "'a \<times> 'a \<times> 'a \<Rightarrow> int \<Rightarrow> 'a option" where
  "nth3 (a, b, c) i =
     (if i = 0 then Some a else if i = 1 then Some b else if i = 2 then Some c else None)"

definition kernel_at :: "kernel \<Rightarrow> int \<Rightarrow> int \<Rightarrow> real option" where
  "kernel_at k m_y m_x = do { row \<leftarrow> nth3 k m_y; nth3 row m_x }"

definition IDENTITY_KERNEL :: kernel where
  "IDENTITY_KERNEL = ((0, 0, 0), (0, 1, 0), (0, 0, 0))"

definition GAUSSIAN_BLUR_KERNEL :: kernel where
  "GAUSSIAN_BLUR_KERNEL =
     ((0.0625, 0.125, 0.0625), (0.125, 0.25, 0.125), (0.0625, 0.125, 0.0625))"

definition SOBEL_B_KERNEL :: kernel where
  "SOBEL_B_KERNEL = ((- 1, - 2, - 1), (0, 0, 0), (1, 2, 1))"

definition SOBEL_T_KERNEL :: kernel where
  "SOBEL_T_KERNEL = ((1, 2, 1), (0, 0, 0), (- 1, - 2, - 1))"

definition SOBEL_L_KERNEL :: kernel where
  "SOBEL_L_KERNEL = ((1, 0, - 1), (2, 0, - 2), (1, 0, - 1))"

definition SOBEL_R_KERNEL :: kernel where
  "SOBEL_R_KERNEL = ((- 1, 0, 1), (- 2, 0, 2), (- 1, 0, 1))"

text \<open>
  The state that a call of \<^verbatim>\<open>convolve\<close> works on: the caller's \<^verbatim>\<open>image_info\<close> together
  with the buffer it points to, and the block obtained from \<^verbatim>\<open>malloc\<close>. A block returned
  by \<^verbatim>\<open>malloc\<close> is distinct from every live block, so the two buffers are separate
  components.
\<close>

record conv_state =
  image :: image_info
  new_pixel_data :: "pixel_info list"

text \<open>
  \<^verbatim>\<open>thread_info\<close>: the band of rows, the two arrays of row pointers and the kernel. A row
  pointer is modelled by its offset into the buffer it points into. The field
  \<^verbatim>\<open>i_info\<close> points to the \<open>image\<close> of the state.
\<close>

record thread_info =
  start_y :: int
  end_y :: int
  pixel_array :: "int list"
  new_pixel_array :: "int list"
  kernel :: kernel

definition radius :: int where
  "radius = 1"

text \<open>
  Lines 628-631, for one axis of length \<open>n\<close>: a negative coordinate is negated, and a
  coordinate that then is at least \<open>n\<close> is moved back by \<open>(f - n + 1) * 2\<close>.
\<close>

definition reflect :: "int \<Rightarrow> int \<Rightarrow> int" where
  "reflect n c =
     (let f = (if c < 0 then c * - 1 else c)
      in if f \<ge> n then f - (f - n + 1) * 2 else f)"

text \<open>\<^verbatim>\<open>rows[i]\<close> for an array of row pointers with \<open>length rows\<close> elements.\<close>

definition row_at :: "int list \<Rightarrow> int \<Rightarrow> int option" where
  "row_at rows i = (if 0 \<le> i \<and> i < int (length rows) then Some (rows ! nat i) else None)"

text \<open>
  The body of the two inner loops (lines 625-637) for the neighbour \<open>(xx, yy)\<close> of the
  output pixel \<open>(x, y)\<close>: each of the three products is converted to \<^verbatim>\<open>int\<close> and added to
  its accumulator.
\<close>

definition tap ::
  "multiplier \<Rightarrow> thread_info \<Rightarrow> image_info \<Rightarrow> int \<Rightarrow> int \<Rightarrow> int \<Rightarrow> int \<Rightarrow> int \<times> int \<times> int
     \<Rightarrow> (int \<times> int \<times> int) option"
where
  "tap fmul t info x y yy xx acc =
     (case acc of (r, g, b) \<Rightarrow> do {
        let f_x = reflect (width info) xx;
        let f_y = reflect (height info) yy;
        let m_y = y - yy + radius;
        let m_x = xx - x + radius;
        row \<leftarrow> row_at (pixel_array t) f_y;
        p \<leftarrow> load (pixel_data info) (row + f_x);
        w \<leftarrow> kernel_at (kernel t) m_y m_x;
        dr \<leftarrow> double_to_int (fmul (uint (red p)) w);
        r \<leftarrow> c_int (r + dr);
        dg \<leftarrow> double_to_int (fmul (uint (green p)) w);
        g \<leftarrow> c_int (g + dg);
        db \<leftarrow> double_to_int (fmul (uint (blue p)) w);
        b \<leftarrow> c_int (b + db);
        Some (r, g, b)
      })"

text \<open>Lines 640-645 for one accumulator.\<close>

definition clamp :: "int \<Rightarrow> int" where
  "clamp v = (let v = (if v > MAX_COLOR then MAX_COLOR else v) in if v < 0 then 0 else v)"

text \<open>Lines 620-645: the value of the output pixel \<open>(x, y)\<close>.\<close>

definition convolve_pixel ::
  "multiplier \<Rightarrow> thread_info \<Rightarrow> image_info \<Rightarrow> int \<Rightarrow> int \<Rightarrow> pixel_info option"
where
  "convolve_pixel fmul t info x y = do {
     (r, g, b) \<leftarrow>
       for_each [y - radius..y + radius]
         (\<lambda>yy. for_each [x - radius..x + radius] (\<lambda>xx. tap fmul t info x y yy xx))
         (0, 0, 0);
     Some \<lparr>blue = to_uint8 (clamp b), green = to_uint8 (clamp g), red = to_uint8 (clamp r)\<rparr>
   }"

text \<open>
  Lines 620-648, the body of the loop over \<open>x\<close>: the pixel is computed and written to
  \<^verbatim>\<open>new_pixel_array[y][x]\<close>.
\<close>

definition store_pixel ::
  "multiplier \<Rightarrow> thread_info \<Rightarrow> int \<Rightarrow> int \<Rightarrow> conv_state \<Rightarrow> conv_state option"
where
  "store_pixel fmul t x y st = do {
     p \<leftarrow> convolve_pixel fmul t (image st) x y;
     row \<leftarrow> row_at (new_pixel_array t) y;
     npd \<leftarrow> store (new_pixel_data st) (row + x) p;
     Some (st\<lparr>new_pixel_data := npd\<rparr>)
   }"

text \<open>
  \<^verbatim>\<open>convolve_threader\<close> (lines 597-652): the dimensions are read once, then the rows
  \<open>start_y \<le> y < end_y\<close> are processed from top to bottom, each from left to right.
\<close>

definition convolve_threader ::
  "multiplier \<Rightarrow> thread_info \<Rightarrow> conv_state \<Rightarrow> conv_state option"
where
  "convolve_threader fmul t st =
     (let image_width = width (image st) in
      for_each [start_y t..end_y t - 1]
        (\<lambda>y. for_each [0..image_width - 1] (\<lambda>x. store_pixel fmul t x y))
        st)"

text \<open>
  Lines 556-567: the arrays of row pointers \<^verbatim>\<open>buf + i * image_width\<close>. Forming a pointer
  that is neither inside the buffer nor one past its end is undefined.
\<close>

definition row_pointers :: "pixel_info list \<Rightarrow> int \<Rightarrow> int \<Rightarrow> int list option" where
  "row_pointers buf image_width image_height =
     (if list_all (\<lambda>i. 0 \<le> i * image_width \<and> i * image_width \<le> int (length buf))
           [0..image_height - 1]
      then Some (map (\<lambda>i. i * image_width) [0..image_height - 1])
      else None)"

text \<open>
  Lines 569-588: the \<^verbatim>\<open>thread_info\<close> structures in the order in which the threads are
  created, for \<open>n\<close> threads (\<^verbatim>\<open>NUM_THREADS\<close> in the source). The division is C's.
\<close>

definition info_structs :: "int \<Rightarrow> int \<Rightarrow> int list \<Rightarrow> int list \<Rightarrow> kernel \<Rightarrow> thread_info list" where
  "info_structs n image_height pa npa k =
     map (\<lambda>i. \<lparr>start_y = image_height sdiv n * i, end_y = image_height sdiv n * (i + 1),
               pixel_array = pa, new_pixel_array = npa, kernel = k\<rparr>) [0..n - 1 - 1]
     @ [\<lparr>start_y = image_height sdiv n * (n - 1), end_y = image_height,
         pixel_array = pa, new_pixel_array = npa, kernel = k\<rparr>]"

text \<open>
  The workers only read the image and write disjoint rows of the new block, and
  \<^verbatim>\<open>convolve\<close> joins all of them before it returns; the model runs them one after the
  other in the order of their creation.
\<close>

fun run_threads :: "multiplier \<Rightarrow> thread_info list \<Rightarrow> conv_state \<Rightarrow> conv_state option" where
  "run_threads fmul [] st = Some st"
| "run_threads fmul (t # ts) st =
     (case convolve_threader fmul t st of None \<Rightarrow> None | Some st' \<Rightarrow> run_threads fmul ts st')"

datatype error = AllocationFailure | UndefinedBehaviour

text \<open>
  \<^verbatim>\<open>size_t\<close> has 64 bits: the conversion of an \<^verbatim>\<open>int\<close> and the multiplication reduce
  modulo \<open>SIZE_MAX + 1\<close>.
\<close>

definition SIZE_MAX :: int where
  "SIZE_MAX = 18446744073709551615"

definition size_t :: "int \<Rightarrow> int" where
  "size_t i = i mod (SIZE_MAX + 1)"

definition sizeof_pixel_info :: int where
  "sizeof_pixel_info = 3"

text \<open>
  \<^verbatim>\<open>convolve\<close> (lines 542-595) with the number of threads as a parameter. On a null
  pointer from \<^verbatim>\<open>malloc\<close> the program prints an error and exits
  (\<open>AllocationFailure\<close>). A variable length array must have a positive size, hence the
  check of \<open>image_height\<close>. The result is the final state: the image as the call leaves it
  and the block that is returned.
\<close>

definition convolve_with ::
  "multiplier \<Rightarrow> int \<Rightarrow> allocator \<Rightarrow> image_info \<Rightarrow> kernel \<Rightarrow> error + conv_state"
where
  "convolve_with fmul n malloc info k =
     (let image_width = width info; image_height = height info in
      case c_int (image_width * image_height) of
        None \<Rightarrow> Inl UndefinedBehaviour
      | Some wh \<Rightarrow>
     (case malloc (size_t (sizeof_pixel_info * size_t wh)) of
        None \<Rightarrow> Inl AllocationFailure
      | Some new \<Rightarrow>
     if image_height \<le> 0 then Inl UndefinedBehaviour
     else
     (case row_pointers (pixel_data info) image_width image_height of
        None \<Rightarrow> Inl UndefinedBehaviour
      | Some pa \<Rightarrow>
     (case row_pointers new image_width image_height of
        None \<Rightarrow> Inl UndefinedBehaviour
      | Some npa \<Rightarrow>
     (case run_threads fmul (info_structs n image_height pa npa k)
             \<lparr>image = info, new_pixel_data = new\<rparr> of
        None \<Rightarrow> Inl UndefinedBehaviour
      | Some st \<Rightarrow> Inr st)))))"

definition convolve ::
  "multiplier \<Rightarrow> allocator \<Rightarrow> image_info \<Rightarrow> kernel \<Rightarrow> error + conv_state"
where
  "convolve fmul = convolve_with fmul NUM_THREADS"

section \<open>Edge detection\<close>

text \<open>
  \<^verbatim>\<open>gaussian_blur\<close> (lines 670-676): the old buffer is released and the image points to
  the new block. Releasing a block does not change any value and is not modelled.
\<close>

definition gaussian_blur :: "multiplier \<Rightarrow> allocator \<Rightarrow> image_info \<Rightarrow> error + image_info" where
  "gaussian_blur fmul malloc info =
     (case convolve fmul malloc info GAUSSIAN_BLUR_KERNEL of
        Inl e \<Rightarrow> Inl e
      | Inr st \<Rightarrow> Inr ((image st)\<lparr>pixel_data := new_pixel_data st\<rparr>))"

text \<open>The macro \<^verbatim>\<open>MAX(a,b)\<close> on two \<^verbatim>\<open>uint8_t\<close> values.\<close>

definition c_MAX :: "8 word \<Rightarrow> 8 word \<Rightarrow> 8 word" where
  "c_MAX a b = (if a > b then a else b)"

text \<open>
  Lines 727-740 of \<^verbatim>\<open>canny_edge_detection\<close>: the loop that combines the four buffers
  into the buffer of the image.
\<close>

definition canny_combine ::
  "pixel_info list \<Rightarrow> pixel_info list \<Rightarrow> pixel_info list \<Rightarrow> pixel_info list \<Rightarrow> image_info
     \<Rightarrow> image_info option"
where
  "canny_combine sobel_t_pd sobel_b_pd sobel_l_pd sobel_r_pd info = do {
     image_size \<leftarrow> c_int (width info * height info);
     pd \<leftarrow> for_each [0..image_size - 1]
             (\<lambda>i pd. do {
                t \<leftarrow> load sobel_t_pd i;
                b \<leftarrow> load sobel_b_pd i;
                l \<leftarrow> load sobel_l_pd i;
                r \<leftarrow> load sobel_r_pd i;
                store pd i
                  \<lparr>blue = c_MAX (c_MAX (blue t) (blue b)) (c_MAX (blue l) (blue r)),
                   green = c_MAX (c_MAX (green t) (green b)) (c_MAX (green l) (green r)),
                   red = c_MAX (c_MAX (red t) (red b)) (c_MAX (red l) (red r))\<rparr>
              })
             (pixel_data info);
     Some (info\<lparr>pixel_data := pd\<rparr>)
   }"

text \<open>
  Lines 712-745: the four directional convolutions of the image, each into a block of its
  own, followed by the combining loop.
\<close>

definition canny_gradient :: "multiplier \<Rightarrow> allocator \<Rightarrow> image_info \<Rightarrow> error + image_info" where
  "canny_gradient fmul malloc info =
     (case convolve fmul malloc info SOBEL_T_KERNEL of Inl e \<Rightarrow> Inl e | Inr st_t \<Rightarrow>
     (case convolve fmul malloc (image st_t) SOBEL_B_KERNEL of Inl e \<Rightarrow> Inl e | Inr st_b \<Rightarrow>
     (case convolve fmul malloc (image st_b) SOBEL_L_KERNEL of Inl e \<Rightarrow> Inl e | Inr st_l \<Rightarrow>
     (case convolve fmul malloc (image st_l) SOBEL_R_KERNEL of Inl e \<Rightarrow> Inl e | Inr st_r \<Rightarrow>
     (case canny_combine (new_pixel_data st_t) (new_pixel_data st_b) (new_pixel_data st_l)
             (new_pixel_data st_r) (image st_r) of
        None \<Rightarrow> Inl UndefinedBehaviour
      | Some out \<Rightarrow> Inr out)))))"

text \<open>\<^verbatim>\<open>canny_edge_detection\<close> (lines 707-748).\<close>

definition canny_edge_detection ::
  "multiplier \<Rightarrow> allocator \<Rightarrow> image_info \<Rightarrow> error + image_info"
where
  "canny_edge_detection fmul malloc info =
     (case greyscale info of None \<Rightarrow> Inl UndefinedBehaviour | Some grey \<Rightarrow>
     (case gaussian_blur fmul malloc grey of Inl e \<Rightarrow> Inl e | Inr blurred \<Rightarrow>
     (case canny_gradient fmul malloc blurred of Inl e \<Rightarrow> Inl e | Inr edges \<Rightarrow>
     (case set_dim_to_black edges of None \<Rightarrow> Inl UndefinedBehaviour | Some out \<Rightarrow> Inr out))))"

section \<open>Notions used in the statements\<close>

text \<open>
  A decoded image as \<^verbatim>\<open>main\<close> hands it to the transforms: positive dimensions whose
  product is an \<^verbatim>\<open>int\<close>, and a buffer of exactly \<open>width * height\<close> pixels.
\<close>

definition pixel_grid :: "image_info \<Rightarrow> bool" where
  "pixel_grid info \<longleftrightarrow>
     1 \<le> width info \<and> 1 \<le> height info \<and> width info * height info \<le> INT_MAX
     \<and> int (length (pixel_data info)) = width info * height info"

text \<open>The pixel in row \<open>r\<close> and column \<open>c\<close> of the buffer of an image.\<close>

definition source_at :: "image_info \<Rightarrow> int \<Rightarrow> int \<Rightarrow> pixel_info" where
  "source_at info r c = pixel_data info ! nat (r * width info + c)"

text \<open>The weight \<^verbatim>\<open>kernel[i][j]\<close> for indices in 0..2.\<close>

definition weight :: "kernel \<Rightarrow> int \<Rightarrow> int \<Rightarrow> real" where
  "weight k i j = (case kernel_at k i j of Some w \<Rightarrow> w | None \<Rightarrow> 0)"

fun weights :: "kernel \<Rightarrow> real list" where
  "weights ((a, b, c), (d, e, f), (g, h, i)) = [a, b, c, d, e, f, g, h, i]"

text \<open>
  The accumulators stay within \<^verbatim>\<open>int\<close> when every product of a channel value with a
  weight of the kernel has magnitude at most 238609110: nine such products sum to at most
  \<open>9 * 238609110 \<le> INT_MAX\<close>.
\<close>

definition products_fit :: "multiplier \<Rightarrow> kernel \<Rightarrow> bool" where
  "products_fit fmul k \<longleftrightarrow>
     (\<forall>v \<in> {0..255}. list_all (\<lambda>w. \<bar>fmul v w\<bar> \<le> 238609110) (weights k))"

text \<open>
  For the exact product this is the case when every weight has magnitude at most
  \<open>WEIGHT_MAX\<close>, since \<open>255 * 935722 = 238609110\<close>.
\<close>

definition WEIGHT_MAX :: real where
  "WEIGHT_MAX = 935722"

definition kernel_bounded :: "kernel \<Rightarrow> bool" where
  "kernel_bounded k = list_all (\<lambda>w. \<bar>w\<bar> \<le> WEIGHT_MAX) (weights k)"

text \<open>
  What the engine stores for one channel \<open>ch\<close> of the output pixel \<open>(x, y)\<close>: the sum of
  the nine products after each has been converted to \<^verbatim>\<open>int\<close>, clamped to 0..255.
\<close>

definition tap_sum ::
  "multiplier \<Rightarrow> (pixel_info \<Rightarrow> 8 word) \<Rightarrow> image_info \<Rightarrow> kernel \<Rightarrow> int \<Rightarrow> int \<Rightarrow> int"
where
  "tap_sum fmul ch info k x y =
     (\<Sum>dy\<leftarrow>[- 1, 0, 1]. \<Sum>dx\<leftarrow>[- 1, 0, 1].
        trunc (fmul (uint (ch (source_at info (reflect (height info) (y + dy))
                                              (reflect (width info) (x + dx)))))
                    (weight k (1 - dy) (dx + 1))))"

definition convolved :: "multiplier \<Rightarrow> image_info \<Rightarrow> kernel \<Rightarrow> int \<Rightarrow> int \<Rightarrow> pixel_info" where
  "convolved fmul info k x y =
     \<lparr>blue = to_uint8 (clamp (tap_sum fmul blue info k x y)),
      green = to_uint8 (clamp (tap_sum fmul green info k x y)),
      red = to_uint8 (clamp (tap_sum fmul red info k x y))\<rparr>"

text \<open>
  The same value read off the loops: one product, the three products of one row of the
  neighbourhood, and the bound that the accumulators keep after \<open>m\<close> products.
\<close>

definition tap_value ::
  "multiplier \<Rightarrow> (pixel_info \<Rightarrow> 8 word) \<Rightarrow> image_info \<Rightarrow> kernel \<Rightarrow> int \<Rightarrow> int \<Rightarrow> int \<Rightarrow> int
     \<Rightarrow> int"
where
  "tap_value fmul ch info k x y yy xx =
     trunc (fmul (uint (ch (source_at info (reflect (height info) yy) (reflect (width info) xx))))
                 (weight k (y - yy + 1) (xx - x + 1)))"

definition row_value ::
  "multiplier \<Rightarrow> (pixel_info \<Rightarrow> 8 word) \<Rightarrow> image_info \<Rightarrow> kernel \<Rightarrow> int \<Rightarrow> int \<Rightarrow> int \<Rightarrow> int"
where
  "row_value fmul ch info k x y yy =
     tap_value fmul ch info k x y yy (x - 1) + tap_value fmul ch info k x y yy x
     + tap_value fmul ch info k x y yy (x + 1)"

fun acc_bounded :: "int \<Rightarrow> int \<times> int \<times> int \<Rightarrow> bool" where
  "acc_bounded m (r, g, b) \<longleftrightarrow>
     \<bar>r\<bar> \<le> m * 238609110 \<and> \<bar>g\<bar> \<le> m * 238609110 \<and> \<bar>b\<bar> \<le> m * 238609110"

text \<open>
  A worker on an image of at least two rows and two columns, with the row pointers that
  \<^verbatim>\<open>convolve\<close> builds and a kernel whose products fit.
\<close>

definition worker_ready :: "multiplier \<Rightarrow> thread_info \<Rightarrow> image_info \<Rightarrow> kernel \<Rightarrow> bool" where
  "worker_ready fmul t info k \<longleftrightarrow>
     pixel_grid info \<and> 2 \<le> width info \<and> 2 \<le> height info
     \<and> pixel_array t = map (\<lambda>i. i * width info) [0..height info - 1]
     \<and> new_pixel_array t = map (\<lambda>i. i * width info) [0..height info - 1]
     \<and> kernel t = k \<and> products_fit fmul k"

text \<open>The whole output buffer, pixel by pixel in row-major order.\<close>

definition convolved_grid :: "multiplier \<Rightarrow> image_info \<Rightarrow> kernel \<Rightarrow> pixel_info list" where
  "convolved_grid fmul info k =
     map (\<lambda>j. convolved fmul info k (j mod width info) (j div width info))
       [0..width info * height info - 1]"

text \<open>
  The cells with flat index in \<open>[lo, hi)\<close> of the new block hold their output pixel, the
  other cells are as in \<open>old\<close>, and the image is \<open>info\<close>.
\<close>

definition cells_written ::
  "multiplier \<Rightarrow> image_info \<Rightarrow> kernel \<Rightarrow> pixel_info list \<Rightarrow> int \<Rightarrow> int \<Rightarrow> conv_state \<Rightarrow> bool"
where
  "cells_written fmul info k old lo hi st \<longleftrightarrow>
     image st = info \<and> length (new_pixel_data st) = length old
     \<and> (\<forall>j. 0 \<le> j \<and> j < int (length old) \<longrightarrow>
           new_pixel_data st ! nat j =
             (if lo \<le> j \<and> j < hi then convolved fmul info k (j mod width info) (j div width info)
              else old ! nat j))"

text \<open>
  The same for an arbitrary set \<open>S\<close> of flat indices: the cells in \<open>S\<close> hold their output
  pixel, the other cells are as in \<open>old\<close>.
\<close>

definition cells_done ::
  "multiplier \<Rightarrow> image_info \<Rightarrow> kernel \<Rightarrow> pixel_info list \<Rightarrow> int set \<Rightarrow> conv_state \<Rightarrow> bool"
where
  "cells_done fmul info k old S st \<longleftrightarrow>
     image st = info \<and> length (new_pixel_data st) = length old
     \<and> (\<forall>j. 0 \<le> j \<and> j < int (length old) \<longrightarrow>
           new_pixel_data st ! nat j =
             (if j \<in> S then convolved fmul info k (j mod width info) (j div width info)
              else old ! nat j))"

subsection \<open>The formula of the specification\<close>

text \<open>
  The border rule and the channel formula as the specification words them: a coordinate
  \<open>c \<ge> N\<close> is reflected to \<open>N - 1 - (c - N)\<close>, and the real sum of the nine products is
  saturated to 0..255 and then truncated.
\<close>

definition spec_reflect :: "int \<Rightarrow> int \<Rightarrow> int" where
  "spec_reflect n c = (if c < 0 then - c else if c \<ge> n then n - 1 - (c - n) else c)"

definition spec_channel :: "(pixel_info \<Rightarrow> 8 word) \<Rightarrow> image_info \<Rightarrow> kernel \<Rightarrow> int \<Rightarrow> int \<Rightarrow> int" where
  "spec_channel ch info k x y =
     trunc (min 255 (max 0
       (\<Sum>dy\<leftarrow>[- 1, 0, 1]. \<Sum>dx\<leftarrow>[- 1, 0, 1].
          real_of_int (uint (ch (source_at info (spec_reflect (height info) (y + dy))
                                                (spec_reflect (width info) (x + dx)))))
          * weight k (1 - dy) (dx + 1))))"

subsection \<open>Concrete inputs\<close>

text \<open>A pixel from its red, green and blue values, and an allocator that always succeeds.\<close>

definition px :: "int \<Rightarrow> int \<Rightarrow> int \<Rightarrow> pixel_info" where
  "px r g b = \<lparr>blue = word_of_int b, green = word_of_int g, red = word_of_int r\<rparr>"

definition zero_malloc :: allocator where
  "zero_malloc n = Some (replicate (nat (n div sizeof_pixel_info)) (px 0 0 0))"

text \<open>
  An image of 2 columns and 43 rows: with 20 threads the bands have 2 rows each and the
  last one has 5.
\<close>

definition tall_image :: image_info where
  "tall_image = \<lparr>width = 2, height = 43, pixel_data = map (\<lambda>i. px i (2 * i) (3 * i)) [0..85]\<rparr>"

section \<open>Loops\<close>

lemma for_each_append:
  "for_each (xs @ ys) body s =
     (case for_each xs body s of None \<Rightarrow> None | Some s' \<Rightarrow> for_each ys body s')"
  by (induction xs arbitrary: s) (auto split: option.splits)

lemma for_each_rule:
  assumes "a \<le> b + 1" and "I a s"
    and "\<And>i s. a \<le> i \<Longrightarrow> i \<le> b \<Longrightarrow> I i s \<Longrightarrow> \<exists>s'. body i s = Some s' \<and> I (i + 1) s'"
  shows "\<exists>s'. for_each [a..b] body s = Some s' \<and> I (b + 1) s'"
  using assms
proof (induction "nat (b + 1 - a)" arbitrary: a s)
  case 0
  then have "a = b + 1" by simp
  with 0 show ?case by simp
next
  case (Suc n)
  then have le: "a \<le> b" by linarith
  from Suc.prems(3) [of a s] le Suc.prems(2) obtain s1 where s1: "body a s = Some s1" "I (a + 1) s1"
    by auto
  have n: "n = nat (b + 1 - (a + 1))" using Suc.hyps(2) by linarith
  have "\<exists>s'. for_each [a + 1..b] body s1 = Some s' \<and> I (b + 1) s'"
  proof (rule Suc.hyps(1) [OF n _ s1(2)])
    show "a + 1 \<le> b + 1" using le by simp
  next
    fix i s assume "a + 1 \<le> i" "i \<le> b" "I i s"
    then show "\<exists>s'. body i s = Some s' \<and> I (i + 1) s'"
      using Suc.prems(3) [of i s] by simp
  qed
  with s1 le show ?case by (simp add: upto_rec1 [of a b])
qed

lemma for_each_invariant:
  assumes "for_each xs body s = Some s'" and "P s"
    and "\<And>i s s'. i \<in> set xs \<Longrightarrow> P s \<Longrightarrow> body i s = Some s' \<Longrightarrow> P s'"
  shows "P s'"
  using assms
proof (induction xs arbitrary: s)
  case Nil
  then show ?case by simp
next
  case (Cons x xs)
  from Cons.prems(1) obtain s1 where s1: "body x s = Some s1" "for_each xs body s1 = Some s'"
    by (auto split: option.splits)
  have "P s1" using Cons.prems(3) [of x s s1] Cons.prems(2) s1(1) by simp
  show ?case
  proof (rule Cons.IH [OF s1(2) \<open>P s1\<close>])
    fix i s s' assume "i \<in> set xs" "P s" "body i s = Some s'"
    then show "P s'" using Cons.prems(3) [of i s s'] by simp
  qed
qed

text \<open>The loop of a pointwise transform.\<close>

lemma pointwise_loop:
  assumes "n \<le> int (length pd)"
  shows "\<exists>pd'. for_each [0..n - 1] (\<lambda>i pd. do { p \<leftarrow> load pd i; store pd i (f p) }) pd = Some pd'
           \<and> length pd' = length pd
           \<and> (\<forall>j<length pd. pd' ! j = (if int j < n then f (pd ! j) else pd ! j))"
proof (cases "0 \<le> n")
  case False
  then show ?thesis by simp
next
  case True
  let ?I = "\<lambda>i pd'. length pd' = length pd
      \<and> (\<forall>j<length pd. pd' ! j = (if int j < i then f (pd ! j) else pd ! j))"
  have "\<exists>pd'. for_each [0..n - 1] (\<lambda>i pd. do { p \<leftarrow> load pd i; store pd i (f p) }) pd = Some pd'
           \<and> ?I (n - 1 + 1) pd'"
  proof (rule for_each_rule)
    show "0 \<le> n - 1 + 1" using True by simp
    show "?I 0 pd" by simp
  next
    fix i s
    assume i: "0 \<le> i" "i \<le> n - 1" and inv: "?I i s"
    have len: "i < int (length s)" using i assms inv by simp
    have "(do { p \<leftarrow> load s i; store s i (f p) }) = Some (s[nat i := f (s ! nat i)])"
      using i len by (simp add: load_def store_def)
    moreover have "?I (i + 1) (s[nat i := f (s ! nat i)])"
      using i len inv by (auto simp: nth_list_update)
    ultimately show "\<exists>s'. (do { p \<leftarrow> load s i; store s i (f p) }) = Some s' \<and> ?I (i + 1) s'"
      by blast
  qed
  then show ?thesis by simp
qed

lemma to_uint8_inverse: "0 \<le> v \<Longrightarrow> v \<le> 255 \<Longrightarrow> uint (to_uint8 v) = v"
  by (simp add: to_uint8_def uint_word_of_int take_bit_eq_mod)

lemma uint8_le: "uint (w :: 8 word) \<le> 255"
  using uint_bounded [of w] by simp

lemma invert_pixel_twice: "invert_pixel (invert_pixel p) = p"
proof -
  have "to_uint8 (255 - uint (to_uint8 (255 - uint w))) = w" for w :: "8 word"
  proof -
    have "uint (to_uint8 (255 - uint w)) = 255 - uint w"
      using uint8_le [of w] by (intro to_uint8_inverse) simp_all
    then show ?thesis by (simp add: to_uint8_def)
  qed
  then show ?thesis by (simp add: invert_pixel_def MAX_COLOR_def)
qed

section \<open>Pointwise transforms: results\<close>

lemma pointwise_transform:
  assumes "pixel_grid info"
  shows "\<exists>pd'. (do {
           image_size \<leftarrow> c_int (width info * height info);
           pd \<leftarrow> for_each [0..image_size - 1]
                   (\<lambda>i pd. do { p \<leftarrow> load pd i; store pd i (f p) }) (pixel_data info);
           Some (info\<lparr>pixel_data := pd\<rparr>) }) = Some (info\<lparr>pixel_data := pd'\<rparr>)
        \<and> pd' = map f (pixel_data info)"
proof -
  let ?n = "width info * height info"
  have n: "0 \<le> ?n" "?n \<le> INT_MAX" "int (length (pixel_data info)) = ?n"
    using assms by (simp_all add: pixel_grid_def)
  have c: "c_int ?n = Some ?n" using n by (simp add: c_int_def INT_MIN_def)
  from pointwise_loop [of ?n "pixel_data info" f] n obtain pd' where
    pd': "for_each [0..?n - 1] (\<lambda>i pd. do { p \<leftarrow> load pd i; store pd i (f p) }) (pixel_data info) = Some pd'"
      "length pd' = length (pixel_data info)"
      "\<forall>j<length (pixel_data info). pd' ! j = (if int j < ?n then f (pixel_data info ! j) else pixel_data info ! j)"
    by auto
  have "pd' = map f (pixel_data info)"
    using pd'(2,3) n(3) by (intro nth_equalityI) auto
  with c pd'(1) show ?thesis by simp
qed

lemma invert_eq: "pixel_grid info \<Longrightarrow> invert info = Some (info\<lparr>pixel_data := map invert_pixel (pixel_data info)\<rparr>)"
  using pointwise_transform [of info invert_pixel] by (auto simp: invert_def)

lemma set_dim_to_black_eq:
  "pixel_grid info \<Longrightarrow> set_dim_to_black info = Some (info\<lparr>pixel_data := map dim_pixel (pixel_data info)\<rparr>)"
  using pointwise_transform [of info dim_pixel] by (auto simp: set_dim_to_black_def)

lemma greyscale_eq:
  "pixel_grid info \<Longrightarrow> greyscale info = Some (info\<lparr>pixel_data := map greyscale_pixel (pixel_data info)\<rparr>)"
  using pointwise_transform [of info greyscale_pixel] by (auto simp: greyscale_def)

lemma pixel_grid_map: "pixel_grid info \<Longrightarrow> pixel_grid (info\<lparr>pixel_data := map f (pixel_data info)\<rparr>)"
  by (simp add: pixel_grid_def)

lemma uint_average: "uint (average p) = (uint (red p) + uint (green p) + uint (blue p)) div 3"
proof -
  let ?s = "uint (red p) + uint (green p) + uint (blue p)"
  have s: "0 \<le> ?s" "?s \<le> 765"
    using uint8_le [of "red p"] uint8_le [of "green p"] uint8_le [of "blue p"] by simp_all
  then have "?s sdiv 3 = ?s div 3" by (simp add: signed_divide_int_def sgn_if)
  moreover have "0 \<le> ?s div 3" "?s div 3 \<le> 255" using s by presburger+
  ultimately show ?thesis by (simp add: average_def to_uint8_inverse)
qed

section \<open>One output pixel\<close>

lemma reflect_in_range: "2 \<le> n \<Longrightarrow> - 1 \<le> c \<Longrightarrow> c \<le> n \<Longrightarrow> 0 \<le> reflect n c \<and> reflect n c < n"
  by (auto simp: reflect_def Let_def)

lemma cell_index:
  fixes r c w h :: int
  assumes "0 \<le> r" "r < h" "0 \<le> c" "c < w"
  shows "0 \<le> r * w + c" and "r * w + c < w * h"
proof -
  have w: "0 \<le> w" using assms by simp
  show "0 \<le> r * w + c" using assms w by simp
  have "(r + 1) * w \<le> h * w" using assms w by (intro mult_right_mono) simp_all
  then show "r * w + c < w * h" using assms by (simp add: algebra_simps)
qed

lemma row_at_rows:
  assumes "0 \<le> r" "r < h"
  shows "row_at (map (\<lambda>i. i * w) [0..h - 1]) r = Some (r * w)"
  using assms by (simp add: row_at_def)

lemma trunc_bound:
  fixes m :: int
  assumes "\<bar>d\<bar> \<le> real_of_int m"
  shows "\<bar>trunc d\<bar> \<le> m"
proof (cases "0 \<le> d")
  case True
  then have "0 \<le> \<lfloor>d\<rfloor>" by simp
  moreover have "\<lfloor>d\<rfloor> \<le> m" using assms True by (simp add: floor_le_iff) 
  ultimately show ?thesis using True by (simp add: trunc_def)
next
  case False
  then have "\<lceil>d\<rceil> \<le> 0" by (simp add: ceiling_le_iff)
  moreover have "- m \<le> \<lceil>d\<rceil>" using assms False by (simp add: le_ceiling_iff)
  ultimately show ?thesis using False by (simp add: trunc_def)
qed

lemma upto3: "[a - 1..a + 1] = [a - 1, a, a + 1]"
  by (simp add: upto_rec1)

lemma kernel_at_weight:
  "m_y \<in> {0, 1, 2} \<Longrightarrow> m_x \<in> {0, 1, 2} \<Longrightarrow> kernel_at k m_y m_x = Some (weight k m_y m_x)"
  by (cases k rule: weights.cases) (auto simp: kernel_at_def weight_def)

lemma weight_bounded:
  "kernel_bounded k \<Longrightarrow> \<bar>weight k m_y m_x\<bar> \<le> WEIGHT_MAX"
  by (cases k rule: weights.cases) (auto simp: kernel_bounded_def kernel_at_def weight_def WEIGHT_MAX_def)

lemma weight_in_weights:
  "m_y \<in> {0, 1, 2} \<Longrightarrow> m_x \<in> {0, 1, 2} \<Longrightarrow> weight k m_y m_x \<in> set (weights k)"
  by (cases k rule: weights.cases) (auto simp: kernel_at_def weight_def)

lemma exact_products_fit:
  assumes "kernel_bounded k"
  shows "products_fit exact_product k"
proof -
  have "\<bar>exact_product v w\<bar> \<le> 238609110" if v: "v \<in> {0..255}" and w: "w \<in> set (weights k)" for v w
  proof -
    have wb: "\<bar>w\<bar> \<le> WEIGHT_MAX" using assms w by (simp add: kernel_bounded_def list_all_iff)
    have a: "0 \<le> real_of_int v" "real_of_int v \<le> 255" using v by simp_all
    have "\<bar>real_of_int v * w\<bar> = real_of_int v * \<bar>w\<bar>"
      using a(1) by (simp only: abs_mult abs_of_nonneg)
    also have "\<dots> \<le> 255 * WEIGHT_MAX"
      using wb a by (intro mult_mono) (simp_all add: WEIGHT_MAX_def)
    finally show ?thesis by (simp add: WEIGHT_MAX_def exact_product_def)
  qed
  then show ?thesis by (simp add: products_fit_def list_all_iff)
qed

lemma product_bound:
  assumes "products_fit fmul k" "m_y \<in> {0, 1, 2}" "m_x \<in> {0, 1, 2}"
  shows "\<bar>trunc (fmul (uint (v :: 8 word)) (weight k m_y m_x))\<bar> \<le> 238609110"
proof -
  have "uint v \<in> {0..255}" using uint8_le [of v] by simp
  with assms(1) weight_in_weights [OF assms(2,3), of k]
  have "\<bar>fmul (uint v) (weight k m_y m_x)\<bar> \<le> 238609110"
    by (auto simp: products_fit_def list_all_iff)
  then have "\<bar>fmul (uint v) (weight k m_y m_x)\<bar> \<le> real_of_int 238609110" by simp
  then show ?thesis by (rule trunc_bound)
qed

lemma tap_value_bound:
  assumes "products_fit fmul k" "yy \<in> {y - 1, y, y + 1}" "xx \<in> {x - 1, x, x + 1}"
  shows "\<bar>tap_value fmul ch info k x y yy xx\<bar> \<le> 238609110"
proof -
  have "y - yy + 1 \<in> {0, 1, 2}" "xx - x + 1 \<in> {0, 1, 2}" using assms(2,3) by auto
  with assms(1) show ?thesis unfolding tap_value_def by (rule product_bound)
qed

lemma c_int_add:
  assumes "0 \<le> m" "m \<le> 8" "\<bar>v\<bar> \<le> m * 238609110" "\<bar>d\<bar> \<le> 238609110"
  shows "c_int (v + d) = Some (v + d)" and "\<bar>v + d\<bar> \<le> (m + 1) * 238609110"
proof -
  show b: "\<bar>v + d\<bar> \<le> (m + 1) * 238609110" using assms by (auto simp: algebra_simps)
  have "(m + 1) * 238609110 \<le> 9 * (238609110::int)" using assms by simp
  with b have "\<bar>v + d\<bar> \<le> 2147481990" by simp
  then show "c_int (v + d) = Some (v + d)"
    by (simp add: c_int_def INT_MIN_def INT_MAX_def) linarith
qed

lemma double_to_int_small:
  "\<bar>trunc d\<bar> \<le> 238609110 \<Longrightarrow> double_to_int d = Some (trunc d)"
  by (simp add: double_to_int_def c_int_def INT_MIN_def INT_MAX_def) linarith

lemma tap_step:
  assumes ready: "worker_ready fmul t info k"
    and x: "0 \<le> x" "x < width info" and y: "0 \<le> y" "y < height info"
    and yy: "yy \<in> {y - 1, y, y + 1}" and xx: "xx \<in> {x - 1, x, x + 1}"
    and m: "0 \<le> m" "m \<le> 8" and acc: "acc_bounded m (r, g, b)"
  shows "tap fmul t info x y yy xx (r, g, b) =
           Some (r + tap_value fmul red info k x y yy xx, g + tap_value fmul green info k x y yy xx,
                 b + tap_value fmul blue info k x y yy xx)"
    and "acc_bounded (m + 1)
           (r + tap_value fmul red info k x y yy xx, g + tap_value fmul green info k x y yy xx,
            b + tap_value fmul blue info k x y yy xx)"
proof -
  let ?W = "width info" and ?H = "height info"
  let ?fx = "reflect ?W xx" and ?fy = "reflect ?H yy"
  have kb: "products_fit fmul k" and kt: "kernel t = k"
    and pa: "pixel_array t = map (\<lambda>i. i * ?W) [0..?H - 1]"
    and len: "int (length (pixel_data info)) = ?W * ?H" and W: "2 \<le> ?W" and H: "2 \<le> ?H"
    using ready by (simp_all add: worker_ready_def pixel_grid_def)
  have fx: "0 \<le> ?fx" "?fx < ?W" using reflect_in_range [OF W, of xx] x xx by auto
  have fy: "0 \<le> ?fy" "?fy < ?H" using reflect_in_range [OF H, of yy] y yy by auto
  have row: "row_at (pixel_array t) ?fy = Some (?fy * ?W)"
    unfolding pa using fy by (rule row_at_rows)
  have ld: "load (pixel_data info) (?fy * ?W + ?fx) = Some (source_at info ?fy ?fx)"
    using cell_index [OF fy fx] len by (simp add: load_def source_at_def)
  have my: "y - yy + radius \<in> {0, 1, 2}" and mx: "xx - x + radius \<in> {0, 1, 2}"
    using yy xx by (auto simp: radius_def)
  have kw: "kernel_at (kernel t) (y - yy + radius) (xx - x + radius) = Some (weight k (y - yy + 1) (xx - x + 1))"
    using kernel_at_weight [OF my mx, of k] kt by (simp add: radius_def)
  have tv: "\<bar>tap_value fmul ch info k x y yy xx\<bar> \<le> 238609110" for ch
    using kb yy xx by (rule tap_value_bound)
  have conv: "double_to_int (fmul (uint (ch (source_at info ?fy ?fx))) (weight k (y - yy + 1) (xx - x + 1)))
      = Some (tap_value fmul ch info k x y yy xx)" for ch
    using tv [of ch] unfolding tap_value_def by (rule double_to_int_small)
  have accs: "\<bar>r\<bar> \<le> m * 238609110" "\<bar>g\<bar> \<le> m * 238609110" "\<bar>b\<bar> \<le> m * 238609110"
    using acc by simp_all
  note sums = c_int_add [OF m accs(1) tv [of red]] c_int_add [OF m accs(2) tv [of green]]
    c_int_add [OF m accs(3) tv [of blue]]
  show "tap fmul t info x y yy xx (r, g, b) =
           Some (r + tap_value fmul red info k x y yy xx, g + tap_value fmul green info k x y yy xx,
                 b + tap_value fmul blue info k x y yy xx)"
    by (simp add: tap_def row ld kw conv sums)
  show "acc_bounded (m + 1)
           (r + tap_value fmul red info k x y yy xx, g + tap_value fmul green info k x y yy xx,
            b + tap_value fmul blue info k x y yy xx)"
    using sums by simp
qed

lemma tap_row:
  assumes ready: "worker_ready fmul t info k"
    and x: "0 \<le> x" "x < width info" and y: "0 \<le> y" "y < height info"
    and yy: "yy \<in> {y - 1, y, y + 1}"
    and m: "0 \<le> m" "m \<le> 6" and acc: "acc_bounded m (r, g, b)"
  shows "for_each [x - radius..x + radius] (\<lambda>xx. tap fmul t info x y yy xx) (r, g, b) =
           Some (r + row_value fmul red info k x y yy, g + row_value fmul green info k x y yy,
                 b + row_value fmul blue info k x y yy)"
    and "acc_bounded (m + 3)
           (r + row_value fmul red info k x y yy, g + row_value fmul green info k x y yy,
            b + row_value fmul blue info k x y yy)"
proof -
  let ?v = "\<lambda>ch xx. tap_value fmul ch info k x y yy xx"
  let ?a1 = "(r + ?v red (x - 1), g + ?v green (x - 1), b + ?v blue (x - 1))"
  let ?a2 = "(r + ?v red (x - 1) + ?v red x, g + ?v green (x - 1) + ?v green x,
              b + ?v blue (x - 1) + ?v blue x)"
  let ?a3 = "(r + ?v red (x - 1) + ?v red x + ?v red (x + 1),
              g + ?v green (x - 1) + ?v green x + ?v green (x + 1),
              b + ?v blue (x - 1) + ?v blue x + ?v blue (x + 1))"
  note step = tap_step [OF ready x y yy]
  have s1: "tap fmul t info x y yy (x - 1) (r, g, b) = Some ?a1" "acc_bounded (m + 1) ?a1"
    using step [of "x - 1" m r g b] m acc by simp_all
  have s2: "tap fmul t info x y yy x ?a1 = Some ?a2" "acc_bounded (m + 1 + 1) ?a2"
    using step [of x "m + 1", OF _ _ _ s1(2)] m by simp_all
  have s3: "tap fmul t info x y yy (x + 1) ?a2 = Some ?a3" "acc_bounded (m + 1 + 1 + 1) ?a3"
    using step [of "x + 1" "m + 1 + 1", OF _ _ _ s2(2)] m by simp_all
  have a3: "?a3 = (r + row_value fmul red info k x y yy, g + row_value fmul green info k x y yy,
                 b + row_value fmul blue info k x y yy)"
    by (simp add: row_value_def)
  have "for_each [x - radius..x + radius] (\<lambda>xx. tap fmul t info x y yy xx) (r, g, b) = Some ?a3"
    by (simp add: radius_def upto3 s1(1) s2(1) s3(1))
  then show "for_each [x - radius..x + radius] (\<lambda>xx. tap fmul t info x y yy xx) (r, g, b) =
           Some (r + row_value fmul red info k x y yy, g + row_value fmul green info k x y yy,
                 b + row_value fmul blue info k x y yy)"
    by (simp only: a3)
  have "m + 1 + 1 + 1 = m + 3" by simp
  with s3(2) show "acc_bounded (m + 3)
           (r + row_value fmul red info k x y yy, g + row_value fmul green info k x y yy,
            b + row_value fmul blue info k x y yy)"
    by (simp only: a3)
qed

lemma tap_sum_rows:
  "tap_sum fmul ch info k x y =
     row_value fmul ch info k x y (y - 1) + row_value fmul ch info k x y y + row_value fmul ch info k x y (y + 1)"
  by (simp add: tap_sum_def row_value_def tap_value_def)

lemma convolve_pixel_eq:
  assumes ready: "worker_ready fmul t info k"
    and x: "0 \<le> x" "x < width info" and y: "0 \<le> y" "y < height info"
  shows "convolve_pixel fmul t info x y = Some (convolved fmul info k x y)"
proof -
  let ?v = "\<lambda>ch yy. row_value fmul ch info k x y yy"
  let ?a1 = "(0 + ?v red (y - 1), 0 + ?v green (y - 1), 0 + ?v blue (y - 1))"
  let ?a2 = "(0 + ?v red (y - 1) + ?v red y, 0 + ?v green (y - 1) + ?v green y,
              0 + ?v blue (y - 1) + ?v blue y)"
  let ?a3 = "(0 + ?v red (y - 1) + ?v red y + ?v red (y + 1),
              0 + ?v green (y - 1) + ?v green y + ?v green (y + 1),
              0 + ?v blue (y - 1) + ?v blue y + ?v blue (y + 1))"
  let ?row = "\<lambda>yy. for_each [x - radius..x + radius] (\<lambda>xx. tap fmul t info x y yy xx)"
  note row = tap_row [OF ready x y]
  have a0: "acc_bounded 0 (0, 0, 0)" by simp
  have r1: "?row (y - 1) (0, 0, 0) = Some ?a1" "acc_bounded (0 + 3) ?a1"
    using row [of "y - 1" 0, OF _ _ _ a0] by simp_all
  have r2: "?row y ?a1 = Some ?a2" "acc_bounded (0 + 3 + 3) ?a2"
    using row [of y "0 + 3", OF _ _ _ r1(2)] by simp_all
  have r3: "?row (y + 1) ?a2 = Some ?a3"
    using row [of "y + 1" "0 + 3 + 3", OF _ _ _ r2(2)] by simp_all
  have a3: "?a3 = (tap_sum fmul red info k x y, tap_sum fmul green info k x y, tap_sum fmul blue info k x y)"
    by (simp add: tap_sum_rows)
  have "for_each [y - radius..y + radius] ?row (0, 0, 0) = Some ?a3"
    using r1(1) r2(1) r3 by (simp add: radius_def upto3)
  then have "for_each [y - radius..y + radius] ?row (0, 0, 0)
        = Some (tap_sum fmul red info k x y, tap_sum fmul green info k x y, tap_sum fmul blue info k x y)"
    by (simp only: a3)
  then show ?thesis by (simp add: convolve_pixel_def convolved_def)
qed

section \<open>One band of rows\<close>

lemma cell_div_mod:
  fixes x y w :: int
  assumes "0 \<le> x" "x < w"
  shows "(y * w + x) div w = y" and "(y * w + x) mod w = x"
  using assms by (simp_all add: div_pos_pos_trivial)

lemma store_pixel_step:
  assumes ready: "worker_ready fmul t info k"
    and x: "0 \<le> x" "x < width info" and y: "0 \<le> y" "y < height info"
    and len: "int (length old) = width info * height info"
    and lo: "lo \<le> y * width info + x"
    and cw: "cells_written fmul info k old lo (y * width info + x) st"
  shows "\<exists>st'. store_pixel fmul t x y st = Some st'
           \<and> cells_written fmul info k old lo (y * width info + (x + 1)) st'"
proof -
  let ?W = "width info" and ?H = "height info"
  let ?j = "y * ?W + x"
  have im: "image st = info" and l: "length (new_pixel_data st) = length old"
    and cells: "\<And>j. 0 \<le> j \<Longrightarrow> j < int (length old) \<Longrightarrow>
           new_pixel_data st ! nat j =
             (if lo \<le> j \<and> j < ?j then convolved fmul info k (j mod ?W) (j div ?W) else old ! nat j)"
    using cw by (simp_all add: cells_written_def)
  have npa: "new_pixel_array t = map (\<lambda>i. i * ?W) [0..?H - 1]"
    using ready by (simp add: worker_ready_def)
  have px: "convolve_pixel fmul t (image st) x y = Some (convolved fmul info k x y)"
    unfolding im using ready x y by (rule convolve_pixel_eq)
  have row: "row_at (new_pixel_array t) y = Some (y * ?W)"
    unfolding npa using y by (rule row_at_rows)
  have j: "0 \<le> ?j" "?j < int (length (new_pixel_data st))"
    using cell_index [OF y x] l len by simp_all
  let ?st' = "st\<lparr>new_pixel_data := (new_pixel_data st)[nat ?j := convolved fmul info k x y]\<rparr>"
  have "store_pixel fmul t x y st = Some ?st'"
    using j by (simp add: store_pixel_def px row store_def)
  moreover have "cells_written fmul info k old lo (?j + 1) ?st'"
    unfolding cells_written_def
  proof (intro conjI allI impI)
    show "image ?st' = info" using im by simp
    show "length (new_pixel_data ?st') = length old" using l by simp
  next
    fix i assume i: "0 \<le> i \<and> i < int (length old)"
    show "new_pixel_data ?st' ! nat i =
        (if lo \<le> i \<and> i < ?j + 1 then convolved fmul info k (i mod ?W) (i div ?W) else old ! nat i)"
    proof (cases "i = ?j")
      case True
      then show ?thesis using j lo cell_div_mod [OF x, of y] by simp
    next
      case False
      then have "nat i \<noteq> nat ?j" using i j by (simp add: eq_nat_nat_iff)
      then have "new_pixel_data ?st' ! nat i = new_pixel_data st ! nat i" by simp
      also have "\<dots> = (if lo \<le> i \<and> i < ?j then convolved fmul info k (i mod ?W) (i div ?W) else old ! nat i)"
        using cells [of i] i by simp
      also have "\<dots> = (if lo \<le> i \<and> i < ?j + 1 then convolved fmul info k (i mod ?W) (i div ?W) else old ! nat i)"
        using False by auto
      finally show ?thesis .
    qed
  qed
  ultimately show ?thesis by (auto simp: add.assoc)
qed

lemma row_loop:
  assumes ready: "worker_ready fmul t info k"
    and y: "0 \<le> y" "y < height info"
    and len: "int (length old) = width info * height info"
    and lo: "lo \<le> y * width info"
    and cw: "cells_written fmul info k old lo (y * width info) st"
  shows "\<exists>st'. for_each [0..width info - 1] (\<lambda>x. store_pixel fmul t x y) st = Some st'
           \<and> cells_written fmul info k old lo ((y + 1) * width info) st'"
proof -
  let ?W = "width info"
  have W: "2 \<le> ?W" using ready by (simp add: worker_ready_def)
  have "\<exists>st'. for_each [0..?W - 1] (\<lambda>x. store_pixel fmul t x y) st = Some st'
           \<and> cells_written fmul info k old lo (y * ?W + (?W - 1 + 1)) st'"
  proof (rule for_each_rule [where I = "\<lambda>x. cells_written fmul info k old lo (y * ?W + x)"])
    show "0 \<le> ?W - 1 + 1" using W by simp
    show "cells_written fmul info k old lo (y * ?W + 0) st" using cw by simp
  next
    fix x s assume "0 \<le> x" "x \<le> ?W - 1" "cells_written fmul info k old lo (y * ?W + x) s"
    then show "\<exists>s'. store_pixel fmul t x y s = Some s' \<and> cells_written fmul info k old lo (y * ?W + (x + 1)) s'"
      using store_pixel_step [OF ready _ _ y len, of x lo s] lo by simp
  qed
  then show ?thesis by (simp add: algebra_simps)
qed

lemma band_loop:
  assumes ready: "worker_ready fmul t info k"
    and a: "0 \<le> a" "a \<le> b" "b \<le> height info"
    and len: "int (length old) = width info * height info"
    and st: "image st = info" "new_pixel_data st = old"
  shows "\<exists>st'. convolve_threader fmul (t\<lparr>start_y := a, end_y := b\<rparr>) st = Some st'
           \<and> cells_written fmul info k old (a * width info) (b * width info) st'"
proof -
  let ?W = "width info"
  let ?t = "t\<lparr>start_y := a, end_y := b\<rparr>"
  have ready': "worker_ready fmul ?t info k" using ready by (simp add: worker_ready_def)
  have W: "2 \<le> ?W" using ready by (simp add: worker_ready_def)
  have "\<exists>st'. for_each [a..b - 1] (\<lambda>y. for_each [0..?W - 1] (\<lambda>x. store_pixel fmul ?t x y)) st = Some st'
           \<and> cells_written fmul info k old (a * ?W) ((b - 1 + 1) * ?W) st'"
  proof (rule for_each_rule [where I = "\<lambda>y. cells_written fmul info k old (a * ?W) (y * ?W)"])
    show "a \<le> b - 1 + 1" using a by simp
    show "cells_written fmul info k old (a * ?W) (a * ?W) st" using st by (auto simp: cells_written_def)
  next
    fix y s assume y: "a \<le> y" "y \<le> b - 1" and cw: "cells_written fmul info k old (a * ?W) (y * ?W) s"
    have "a * ?W \<le> y * ?W" using y W by (intro mult_right_mono) simp_all
    then show "\<exists>s'. for_each [0..?W - 1] (\<lambda>x. store_pixel fmul ?t x y) s = Some s'
        \<and> cells_written fmul info k old (a * ?W) ((y + 1) * ?W) s'"
      using row_loop [OF ready' _ _ len _ cw] y a by simp
  qed
  then show ?thesis using st by (simp add: convolve_threader_def)
qed

lemma cells_written_all:
  assumes "cells_written fmul info k old 0 (height info * width info) st"
    and len: "int (length old) = width info * height info"
  shows "st = \<lparr>image = info, new_pixel_data = convolved_grid fmul info k\<rparr>"
proof -
  have "new_pixel_data st = convolved_grid fmul info k"
  proof (rule nth_equalityI)
    show "length (new_pixel_data st) = length (convolved_grid fmul info k)"
      using assms by (simp add: cells_written_def convolved_grid_def)
  next
    fix i assume "i < length (new_pixel_data st)"
    then have i: "int i < width info * height info" using assms by (simp add: cells_written_def)
    have "\<forall>j. 0 \<le> j \<and> j < int (length old) \<longrightarrow>
           new_pixel_data st ! nat j =
             (if 0 \<le> j \<and> j < height info * width info
              then convolved fmul info k (j mod width info) (j div width info) else old ! nat j)"
      using assms(1) by (simp add: cells_written_def)
    from this [rule_format, of "int i"] i len
    have "new_pixel_data st ! nat (int i) = convolved fmul info k (int i mod width info) (int i div width info)"
      by (simp add: mult.commute)
    moreover have "convolved_grid fmul info k ! i = convolved fmul info k (int i mod width info) (int i div width info)"
      using i by (simp add: convolved_grid_def)
    ultimately show "new_pixel_data st ! i = convolved_grid fmul info k ! i" by simp
  qed
  moreover have "image st = info" using assms by (simp add: cells_written_def)
  ultimately show ?thesis by simp
qed

section \<open>Bands and threads\<close>

lemma store_pixel_image: "store_pixel fmul t x y st = Some st' \<Longrightarrow> image st' = image st"
  by (auto simp: store_pixel_def split: Option.bind_splits)

lemma convolve_threader_image:
  assumes "convolve_threader fmul t st = Some st'"
  shows "image st' = image st"
proof -
  let ?w = "width (image st)"
  have "for_each [start_y t..end_y t - 1] (\<lambda>y. for_each [0..?w - 1] (\<lambda>x. store_pixel fmul t x y)) st = Some st'"
    using assms by (simp add: convolve_threader_def)
  then show ?thesis
  proof (rule for_each_invariant [where P = "\<lambda>s. image s = image st"])
    show "image st = image st" ..
  next
    fix y s s'
    assume s: "image s = image st" and "for_each [0..?w - 1] (\<lambda>x. store_pixel fmul t x y) s = Some s'"
    from this(2) have "image s' = image s"
    proof (rule for_each_invariant [where P = "\<lambda>u. image u = image s"])
      show "image s = image s" ..
    next
      fix x u u' assume "image u = image s" "store_pixel fmul t x y u = Some u'"
      then show "image u' = image s" using store_pixel_image [of fmul t x y u u'] by simp
    qed
    with s show "image s' = image st" by simp
  qed
qed

lemma tap_band: "tap fmul (t\<lparr>start_y := a, end_y := b\<rparr>) = tap fmul t"
  by (intro ext) (simp add: tap_def)

lemma store_pixel_band: "store_pixel fmul (t\<lparr>start_y := a, end_y := b\<rparr>) = store_pixel fmul t"
  by (simp add: fun_eq_iff store_pixel_def convolve_pixel_def tap_band)

lemma threader_split:
  assumes "a \<le> b" "b \<le> c"
  shows "convolve_threader fmul (t\<lparr>start_y := a, end_y := c\<rparr>) st =
     (case convolve_threader fmul (t\<lparr>start_y := a, end_y := b\<rparr>) st of
        None \<Rightarrow> None
      | Some st' \<Rightarrow> convolve_threader fmul (t\<lparr>start_y := b, end_y := c\<rparr>) st')"
proof -
  have split: "[a..c - 1] = [a..b - 1] @ [b..c - 1]"
  proof (cases "b = c")
    case True
    then show ?thesis by simp
  next
    case False
    then show ?thesis using assms upto_split1 [of a b "c - 1"] by simp
  qed
  show ?thesis
  proof (cases "convolve_threader fmul (t\<lparr>start_y := a, end_y := b\<rparr>) st")
    case None
    then show ?thesis
      by (simp add: convolve_threader_def split for_each_append store_pixel_band)
  next
    case (Some st')
    then have "image st' = image st" by (rule convolve_threader_image)
    with Some show ?thesis
      by (simp add: convolve_threader_def split for_each_append store_pixel_band)
  qed
qed

lemma run_threads_append:
  "run_threads fmul (ts @ us) st =
     (case run_threads fmul ts st of None \<Rightarrow> None | Some st' \<Rightarrow> run_threads fmul us st')"
  by (induction ts arbitrary: st) (auto split: option.splits)

lemma bands_prefix:
  assumes "0 \<le> q"
  shows "run_threads fmul (map (\<lambda>i. t\<lparr>start_y := q * i, end_y := q * (i + 1)\<rparr>) [0..int m - 1]) st
         = convolve_threader fmul (t\<lparr>start_y := 0, end_y := q * int m\<rparr>) st"
proof (induction m)
  case 0
  show ?case by (simp add: convolve_threader_def)
next
  case (Suc m)
  have up: "[0..int (Suc m) - 1] = [0..int m - 1] @ [int m]"
    using upto_rec2 [of 0 "int m"] by simp
  have le: "0 \<le> q * int m" "q * int m \<le> q * (int m + 1)"
    using assms by (simp_all add: algebra_simps)
  show ?case
    unfolding up map_append run_threads_append Suc.IH
    using threader_split [OF le, of fmul t st]
    by (simp add: algebra_simps split: option.splits)
qed

lemma run_threads_info_structs:
  assumes n: "1 \<le> n" and h: "0 \<le> h"
  shows "run_threads fmul (info_structs n h pa npa k) st =
         convolve_threader fmul
           \<lparr>start_y = 0, end_y = h, pixel_array = pa, new_pixel_array = npa, kernel = k\<rparr> st"
proof -
  let ?q = "h sdiv n"
  let ?t = "\<lparr>start_y = 0, end_y = h, pixel_array = pa, new_pixel_array = npa, kernel = k\<rparr>"
  have q: "?q = h div n" using n h by (simp add: signed_divide_int_def sgn_if)
  have q0: "0 \<le> ?q" unfolding q using n h by (simp add: pos_imp_zdiv_nonneg_iff)
  have "0 \<le> h mod n" using n by simp
  moreover have "h div n * n + h mod n = h" by simp
  ultimately have "h div n * n \<le> h" by linarith
  moreover have "?q * (n - 1) \<le> ?q * n" using q0 by (intro mult_left_mono) simp_all
  moreover have "0 \<le> ?q * (n - 1)" using q0 n by simp
  ultimately have le: "0 \<le> ?q * (n - 1)" "?q * (n - 1) \<le> h"
    using q0 n unfolding q by simp_all
  have m: "n - 1 - 1 = int (nat (n - 1)) - 1" using n by simp
  have structs: "info_structs n h pa npa k =
      map (\<lambda>i. ?t\<lparr>start_y := ?q * i, end_y := ?q * (i + 1)\<rparr>) [0..int (nat (n - 1)) - 1]
      @ [?t\<lparr>start_y := ?q * (n - 1), end_y := h\<rparr>]"
    unfolding info_structs_def m by simp
  have n1: "int (nat (n - 1)) = n - 1" using n by simp
  let ?bands = "map (\<lambda>i. ?t\<lparr>start_y := ?q * i, end_y := ?q * (i + 1)\<rparr>) [0..int (nat (n - 1)) - 1]"
  let ?last = "?t\<lparr>start_y := ?q * (n - 1), end_y := h\<rparr>"
  have pre: "run_threads fmul ?bands st = convolve_threader fmul (?t\<lparr>start_y := 0, end_y := ?q * (n - 1)\<rparr>) st"
    using bands_prefix [OF q0, of fmul ?t "nat (n - 1)" st] unfolding n1 .
  have single: "run_threads fmul [?last] s = convolve_threader fmul ?last s" for s
    by (simp split: option.splits)
  have "run_threads fmul (info_structs n h pa npa k) st =
      (case run_threads fmul ?bands st of None \<Rightarrow> None | Some st' \<Rightarrow> run_threads fmul [?last] st')"
    by (simp only: structs run_threads_append)
  also have "\<dots> = (case convolve_threader fmul (?t\<lparr>start_y := 0, end_y := ?q * (n - 1)\<rparr>) st of
      None \<Rightarrow> None | Some st' \<Rightarrow> convolve_threader fmul ?last st')"
    by (simp only: pre single)
  also have "\<dots> = convolve_threader fmul (?t\<lparr>start_y := 0, end_y := h\<rparr>) st"
    by (rule threader_split [OF le, of fmul ?t st, symmetric])
  also have "?t\<lparr>start_y := 0, end_y := h\<rparr> = ?t" by simp
  finally show ?thesis .
qed

text \<open>
  The workers of a list of bands, run one after the other in any order, leave in the cells
  of their rows the output pixels and touch no other cell; the bands that \<^verbatim>\<open>convolve\<close>
  builds lie inside the image and cover every row.
\<close>

lemma band_step:
  assumes ready: "worker_ready fmul t info k"
    and a: "0 \<le> a" "a \<le> b" "b \<le> height info"
    and len: "int (length old) = width info * height info"
    and cd: "cells_done fmul info k old S st"
  shows "\<exists>st'. convolve_threader fmul (t\<lparr>start_y := a, end_y := b\<rparr>) st = Some st'
           \<and> cells_done fmul info k old (S \<union> {a * width info..<b * width info}) st'"
proof -
  let ?W = "width info"
  have im: "image st = info" and l: "length (new_pixel_data st) = length old"
    and cells: "\<And>j. 0 \<le> j \<Longrightarrow> j < int (length old) \<Longrightarrow>
           new_pixel_data st ! nat j =
             (if j \<in> S then convolved fmul info k (j mod ?W) (j div ?W) else old ! nat j)"
    using cd by (simp_all add: cells_done_def)
  have len': "int (length (new_pixel_data st)) = width info * height info"
    using l len by simp
  from band_loop [OF ready a len' im refl]
  obtain st' where run: "convolve_threader fmul (t\<lparr>start_y := a, end_y := b\<rparr>) st = Some st'"
    and cw: "cells_written fmul info k (new_pixel_data st) (a * ?W) (b * ?W) st'"
    by blast
  have "cells_done fmul info k old (S \<union> {a * ?W..<b * ?W}) st'"
    unfolding cells_done_def
  proof (intro conjI allI impI)
    show "image st' = info" using cw by (simp add: cells_written_def)
    show "length (new_pixel_data st') = length old" using cw l by (simp add: cells_written_def)
  next
    fix j assume j: "0 \<le> j \<and> j < int (length old)"
    then have "new_pixel_data st' ! nat j =
        (if a * ?W \<le> j \<and> j < b * ?W then convolved fmul info k (j mod ?W) (j div ?W)
         else new_pixel_data st ! nat j)"
      using cw l by (simp add: cells_written_def)
    then show "new_pixel_data st' ! nat j =
        (if j \<in> S \<union> {a * ?W..<b * ?W} then convolved fmul info k (j mod ?W) (j div ?W)
         else old ! nat j)"
      using cells [of j] j by auto
  qed
  with run show ?thesis by blast
qed

lemma run_threads_cells:
  assumes ready: "worker_ready fmul t info k"
    and len: "int (length old) = width info * height info"
    and bands: "\<And>u. u \<in> set ts \<Longrightarrow>
        0 \<le> start_y u \<and> start_y u \<le> end_y u \<and> end_y u \<le> height info
        \<and> u = t\<lparr>start_y := start_y u, end_y := end_y u\<rparr>"
    and cd: "cells_done fmul info k old S st"
  shows "\<exists>st'. run_threads fmul ts st = Some st'
           \<and> cells_done fmul info k old
                (S \<union> (\<Union>u \<in> set ts. {start_y u * width info..<end_y u * width info})) st'"
  using bands cd
proof (induction ts arbitrary: S st)
  case Nil
  then show ?case by simp
next
  case (Cons u us)
  let ?W = "width info"
  have u: "0 \<le> start_y u" "start_y u \<le> end_y u" "end_y u \<le> height info"
    and ut: "u = t\<lparr>start_y := start_y u, end_y := end_y u\<rparr>"
    using Cons.prems(1) [of u] by simp_all
  from band_step [OF ready u len Cons.prems(2)] ut
  obtain s where s: "convolve_threader fmul u st = Some s"
    and cs: "cells_done fmul info k old (S \<union> {start_y u * ?W..<end_y u * ?W}) s"
    by auto
  have "\<exists>st'. run_threads fmul us s = Some st'
           \<and> cells_done fmul info k old
                ((S \<union> {start_y u * ?W..<end_y u * ?W})
                 \<union> (\<Union>v \<in> set us. {start_y v * ?W..<end_y v * ?W})) st'"
  proof (rule Cons.IH [OF _ cs])
    fix v assume "v \<in> set us"
    then show "0 \<le> start_y v \<and> start_y v \<le> end_y v \<and> end_y v \<le> height info
        \<and> v = t\<lparr>start_y := start_y v, end_y := end_y v\<rparr>"
      using Cons.prems(1) [of v] by simp
  qed
  then show ?case using s by (simp add: Un_assoc)
qed

lemma cells_done_all:
  assumes cd: "cells_done fmul info k old S st"
    and len: "int (length old) = width info * height info"
    and cover: "\<And>j. 0 \<le> j \<Longrightarrow> j < width info * height info \<Longrightarrow> j \<in> S"
  shows "st = \<lparr>image = info, new_pixel_data = convolved_grid fmul info k\<rparr>"
proof -
  have "cells_written fmul info k old 0 (height info * width info) st"
    using cd len cover by (auto simp: cells_done_def cells_written_def mult.commute)
  then show ?thesis using len by (rule cells_written_all)
qed

lemma info_structs_bands:
  assumes n: "1 \<le> n" and h: "0 \<le> h" and u: "u \<in> set (info_structs n h pa npa k)"
  shows "0 \<le> start_y u \<and> start_y u \<le> end_y u \<and> end_y u \<le> h
     \<and> u = \<lparr>start_y = 0, end_y = h, pixel_array = pa, new_pixel_array = npa, kernel = k\<rparr>
            \<lparr>start_y := start_y u, end_y := end_y u\<rparr>"
proof -
  let ?q = "h sdiv n"
  have q: "?q = h div n" using n h by (simp add: signed_divide_int_def sgn_if)
  have q0: "0 \<le> ?q" unfolding q using n h by (simp add: pos_imp_zdiv_nonneg_iff)
  have "0 \<le> h mod n" using n by simp
  moreover have "h div n * n + h mod n = h" by simp
  ultimately have qn: "?q * n \<le> h" unfolding q by linarith
  from u consider i where "0 \<le> i" "i \<le> n - 2"
      "u = \<lparr>start_y = ?q * i, end_y = ?q * (i + 1), pixel_array = pa, new_pixel_array = npa, kernel = k\<rparr>"
    | "u = \<lparr>start_y = ?q * (n - 1), end_y = h, pixel_array = pa, new_pixel_array = npa, kernel = k\<rparr>"
    by (auto simp: info_structs_def)
  then show ?thesis
  proof cases
    case 1
    have "?q * (i + 1) \<le> ?q * n" using q0 1 by (intro mult_left_mono) simp_all
    moreover have "?q * i \<le> ?q * (i + 1)" using q0 by (intro mult_left_mono) simp_all
    moreover have "0 \<le> ?q * i" using q0 1 by simp
    ultimately show ?thesis using 1 qn by simp
  next
    case 2
    have "?q * (n - 1) \<le> ?q * n" using q0 by (intro mult_left_mono) simp_all
    moreover have "0 \<le> ?q * (n - 1)" using q0 n by simp
    ultimately show ?thesis using 2 qn by simp
  qed
qed

lemma info_structs_cover:
  assumes n: "1 \<le> n" and w: "0 < w" and j: "0 \<le> j" "j < w * h"
  shows "\<exists>u \<in> set (info_structs n h pa npa k). start_y u * w \<le> j \<and> j < end_y u * w"
proof -
  let ?q = "h sdiv n"
  define y where "y = j div w"
  have h: "0 \<le> h"
  proof (rule ccontr)
    assume "\<not> 0 \<le> h"
    then have "w * h \<le> 0" using w by (simp add: mult_le_0_iff)
    with j show False by simp
  qed
  have q: "?q = h div n" using n h by (simp add: signed_divide_int_def sgn_if)
  have q0: "0 \<le> ?q" unfolding q using n h by (simp add: pos_imp_zdiv_nonneg_iff)
  have y0: "0 \<le> y" unfolding y_def using j w by (simp add: pos_imp_zdiv_nonneg_iff)
  have dm: "0 \<le> j mod w" "j mod w < w" "j div w * w + j mod w = j" using w by simp_all
  have jl: "y * w \<le> j" unfolding y_def using dm by linarith
  have yh: "y < h"
  proof (rule ccontr)
    assume "\<not> y < h"
    then have "h * w \<le> y * w" using w by (intro mult_right_mono) simp_all
    with jl j show False by (simp add: mult.commute)
  qed
  have "(y + 1) * w = j div w * w + w" unfolding y_def by (simp add: algebra_simps)
  then have ju: "j < (y + 1) * w" using dm by linarith
  have mono: "a * w \<le> y * w" if "a \<le> y" for a using that w by (intro mult_right_mono) simp_all
  have mono': "(y + 1) * w \<le> b * w" if "y < b" for b using that w by (intro mult_right_mono) simp_all
  show ?thesis
  proof (cases "y < ?q * (n - 1)")
    case False
    let ?u = "\<lparr>start_y = ?q * (n - 1), end_y = h, pixel_array = pa, new_pixel_array = npa, kernel = k\<rparr>"
    have "?u \<in> set (info_structs n h pa npa k)" by (simp add: info_structs_def)
    moreover have "start_y ?u * w \<le> j \<and> j < end_y ?u * w"
      using mono [of "?q * (n - 1)"] mono' [of h] False yh jl ju by simp
    ultimately show ?thesis by blast
  next
    case True
    have qpos: "0 < ?q"
    proof (rule ccontr)
      assume "\<not> 0 < ?q"
      with q0 have "?q = 0" by simp
      with True y0 show False by simp
    qed
    define i where "i = y div ?q"
    have i0: "0 \<le> i" unfolding i_def using y0 qpos by (simp add: pos_imp_zdiv_nonneg_iff)
    have "y < (n - 1) * ?q" using True by (simp add: mult.commute)
    have dq: "0 \<le> y mod ?q" "y mod ?q < ?q" "?q * (y div ?q) + y mod ?q = y"
      using qpos by simp_all
    have il: "?q * i \<le> y" unfolding i_def using dq by linarith
    have i1: "i < n - 1"
    proof (rule ccontr)
      assume "\<not> i < n - 1"
      then have "?q * (n - 1) \<le> ?q * i" using qpos by (intro mult_left_mono) simp_all
      with il True show False by simp
    qed
    have "?q * (i + 1) = ?q * (y div ?q) + ?q" unfolding i_def by (simp add: algebra_simps)
    then have iu: "y < ?q * (i + 1)" using dq by linarith
    let ?u = "\<lparr>start_y = ?q * i, end_y = ?q * (i + 1), pixel_array = pa, new_pixel_array = npa, kernel = k\<rparr>"
    have "i \<in> set [0..n - 1 - 1]" using i0 i1 by simp
    then have "?u \<in> set (info_structs n h pa npa k)"
      unfolding info_structs_def set_append set_map by blast
    moreover have "start_y ?u * w \<le> j \<and> j < end_y ?u * w"
      using mono [of "?q * i"] mono' [of "?q * (i + 1)"] il iu jl ju by simp
    ultimately show ?thesis by blast
  qed
qed

lemma workers_any_order:
  assumes grid: "pixel_grid info" and W: "2 \<le> width info" and H: "2 \<le> height info"
    and kb: "products_fit fmul k" and n: "1 \<le> n"
    and len: "int (length new) = width info * height info"
    and ts: "set ts = set (info_structs n (height info)
                (map (\<lambda>i. i * width info) [0..height info - 1])
                (map (\<lambda>i. i * width info) [0..height info - 1]) k)"
  shows "run_threads fmul ts \<lparr>image = info, new_pixel_data = new\<rparr>
         = Some \<lparr>image = info, new_pixel_data = convolved_grid fmul info k\<rparr>"
proof -
  let ?W = "width info" and ?H = "height info"
  let ?pa = "map (\<lambda>i. i * ?W) [0..?H - 1]"
  let ?t = "\<lparr>start_y = 0, end_y = ?H, pixel_array = ?pa, new_pixel_array = ?pa, kernel = k\<rparr>"
  let ?st = "\<lparr>image = info, new_pixel_data = new\<rparr>"
  have ready: "worker_ready fmul ?t info k"
    using grid W H kb by (simp add: worker_ready_def)
  have cd: "cells_done fmul info k new {} ?st" by (simp add: cells_done_def)
  have H0: "0 \<le> ?H" using H by simp
  have "\<exists>st'. run_threads fmul ts ?st = Some st'
           \<and> cells_done fmul info k new
                ({} \<union> (\<Union>u \<in> set ts. {start_y u * ?W..<end_y u * ?W})) st'"
  proof (rule run_threads_cells [OF ready len _ cd])
    fix u assume "u \<in> set ts"
    then have "u \<in> set (info_structs n ?H ?pa ?pa k)" using ts by simp
    from info_structs_bands [OF n H0 this]
    show "0 \<le> start_y u \<and> start_y u \<le> end_y u \<and> end_y u \<le> ?H
        \<and> u = ?t\<lparr>start_y := start_y u, end_y := end_y u\<rparr>" .
  qed
  then obtain st' where run: "run_threads fmul ts ?st = Some st'"
    and cd': "cells_done fmul info k new (\<Union>u \<in> set ts. {start_y u * ?W..<end_y u * ?W}) st'"
    by auto
  have "st' = \<lparr>image = info, new_pixel_data = convolved_grid fmul info k\<rparr>"
  proof (rule cells_done_all [OF cd' len])
    fix j assume j: "0 \<le> j" "j < ?W * ?H"
    have "0 < ?W" using W by simp
    from info_structs_cover [OF n this j, of ?pa ?pa k] ts
    show "j \<in> (\<Union>u \<in> set ts. {start_y u * ?W..<end_y u * ?W})" by auto
  qed
  with run show ?thesis by simp
qed

section \<open>The whole call\<close>

lemma size_t_small: "0 \<le> v \<Longrightarrow> v \<le> 3 * INT_MAX \<Longrightarrow> size_t v = v"
  by (simp add: size_t_def SIZE_MAX_def INT_MAX_def)

lemma malloc_request:
  assumes "0 \<le> wh" "wh \<le> INT_MAX"
  shows "size_t (sizeof_pixel_info * size_t wh) = 3 * wh"
proof -
  have "size_t wh = wh" using assms by (intro size_t_small) (simp_all add: INT_MAX_def)
  moreover have "size_t (3 * wh) = 3 * wh" using assms by (intro size_t_small) simp_all
  ultimately show ?thesis by (simp add: sizeof_pixel_info_def)
qed

lemma row_pointers_grid:
  fixes w h :: int
  assumes "0 \<le> w" "int (length buf) = w * h"
  shows "row_pointers buf w h = Some (map (\<lambda>i. i * w) [0..h - 1])"
proof -
  have "0 \<le> i * w \<and> i * w \<le> int (length buf)" if "i \<in> set [0..h - 1]" for i
  proof -
    from that have i: "0 \<le> i" "i \<le> h" by simp_all
    then have "i * w \<le> h * w" using assms(1) by (intro mult_right_mono)
    then show ?thesis using i assms by (simp add: mult.commute)
  qed
  then show ?thesis by (simp add: row_pointers_def list_all_iff)
qed

lemma convolve_with_total:
  assumes grid: "pixel_grid info" and W: "2 \<le> width info" and H: "2 \<le> height info"
    and kb: "products_fit fmul k" and n: "1 \<le> n"
    and alloc: "malloc (3 * (width info * height info)) = Some new"
    and len: "int (length new) = width info * height info"
  shows "convolve_with fmul n malloc info k = Inr \<lparr>image = info, new_pixel_data = convolved_grid fmul info k\<rparr>"
proof -
  let ?W = "width info" and ?H = "height info"
  let ?pa = "map (\<lambda>i. i * ?W) [0..?H - 1]"
  let ?t = "\<lparr>start_y = 0, end_y = ?H, pixel_array = ?pa, new_pixel_array = ?pa, kernel = k\<rparr>"
  let ?st = "\<lparr>image = info, new_pixel_data = new\<rparr>"
  have wh: "0 \<le> ?W * ?H" "?W * ?H \<le> INT_MAX" "int (length (pixel_data info)) = ?W * ?H"
    using grid by (simp_all add: pixel_grid_def)
  have c: "c_int (?W * ?H) = Some (?W * ?H)" using wh by (simp add: c_int_def INT_MIN_def)
  have req: "malloc (size_t (sizeof_pixel_info * size_t (?W * ?H))) = Some new"
    using malloc_request [OF wh(1,2)] alloc by simp
  have pa: "row_pointers (pixel_data info) ?W ?H = Some ?pa"
    using W wh(3) by (intro row_pointers_grid) simp_all
  have npa: "row_pointers new ?W ?H = Some ?pa"
    using W len by (intro row_pointers_grid) simp_all
  have ready: "worker_ready fmul ?t info k"
    using grid W H kb by (simp add: worker_ready_def)
  have run: "run_threads fmul (info_structs n ?H ?pa ?pa k) ?st = convolve_threader fmul ?t ?st"
    using n H by (intro run_threads_info_structs) simp_all
  from band_loop [OF ready, of 0 ?H new ?st] len H
  obtain st' where st': "convolve_threader fmul (?t\<lparr>start_y := 0, end_y := ?H\<rparr>) ?st = Some st'"
      "cells_written fmul info k new (0 * ?W) (?H * ?W) st'"
    by auto
  from st'(2) have "cells_written fmul info k new 0 (?H * ?W) st'" by simp
  from cells_written_all [OF this len]
  have "st' = \<lparr>image = info, new_pixel_data = convolved_grid fmul info k\<rparr>" .
  with st'(1) have "convolve_threader fmul ?t ?st = Some \<lparr>image = info, new_pixel_data = convolved_grid fmul info k\<rparr>"
    by simp
  with run c req pa npa H show ?thesis
    by (simp add: convolve_with_def)
qed

lemma convolve_total:
  assumes "pixel_grid info" "2 \<le> width info" "2 \<le> height info" "products_fit fmul k"
    and "malloc (3 * (width info * height info)) = Some new"
    and "int (length new) = width info * height info"
  shows "convolve fmul malloc info k = Inr \<lparr>image = info, new_pixel_data = convolved_grid fmul info k\<rparr>"
  unfolding convolve_def using assms by (intro convolve_with_total) (simp_all add: NUM_THREADS_def)

lemma convolved_grid_nth:
  assumes "0 \<le> x" "x < width info" "0 \<le> y" "y < height info"
  shows "convolved_grid fmul info k ! nat (y * width info + x) = convolved fmul info k x y"
proof -
  note j = cell_index [OF assms(3,4,1,2)]
  have "convolved_grid fmul info k ! nat (y * width info + x)
      = convolved fmul info k ((y * width info + x) mod width info) ((y * width info + x) div width info)"
    using j by (simp add: convolved_grid_def)
  then show ?thesis using cell_div_mod [OF assms(1,2), of y] by simp
qed

lemma clamp_range: "0 \<le> clamp v \<and> clamp v \<le> 255"
  by (simp add: clamp_def MAX_COLOR_def Let_def)

lemma uint_clamp: "uint (to_uint8 (clamp v)) = clamp v"
  using clamp_range [of v] by (intro to_uint8_inverse) simp_all

lemma store_pixel_length:
  "store_pixel fmul t x y st = Some st' \<Longrightarrow> length (new_pixel_data st') = length (new_pixel_data st)"
  by (auto simp: store_pixel_def store_def split: Option.bind_splits if_splits)

lemma convolve_threader_length:
  assumes "convolve_threader fmul t st = Some st'"
  shows "length (new_pixel_data st') = length (new_pixel_data st)"
proof -
  let ?w = "width (image st)"
  let ?n = "length (new_pixel_data st)"
  have "for_each [start_y t..end_y t - 1] (\<lambda>y. for_each [0..?w - 1] (\<lambda>x. store_pixel fmul t x y)) st = Some st'"
    using assms by (simp add: convolve_threader_def)
  then show ?thesis
  proof (rule for_each_invariant [where P = "\<lambda>s. length (new_pixel_data s) = ?n"])
    show "?n = ?n" ..
  next
    fix y s s'
    assume s: "length (new_pixel_data s) = ?n"
      and "for_each [0..?w - 1] (\<lambda>x. store_pixel fmul t x y) s = Some s'"
    from this(2) show "length (new_pixel_data s') = ?n"
    proof (rule for_each_invariant [where P = "\<lambda>u. length (new_pixel_data u) = ?n"])
      show "length (new_pixel_data s) = ?n" by (fact s)
    next
      fix x u u' assume "length (new_pixel_data u) = ?n" "store_pixel fmul t x y u = Some u'"
      then show "length (new_pixel_data u') = ?n" using store_pixel_length [of fmul t x y u u'] by simp
    qed
  qed
qed

lemma run_threads_frame:
  "run_threads fmul ts st = Some st' \<Longrightarrow>
     image st' = image st \<and> length (new_pixel_data st') = length (new_pixel_data st)"
proof (induction ts arbitrary: st)
  case Nil
  then show ?case by simp
next
  case (Cons t ts)
  from Cons.prems obtain s where s: "convolve_threader fmul t st = Some s" "run_threads fmul ts s = Some st'"
    by (auto split: option.splits)
  from Cons.IH [OF s(2)] convolve_threader_image [OF s(1)] convolve_threader_length [OF s(1)]
  show ?case by simp
qed

lemma c_int_Some: "c_int v = Some x \<longleftrightarrow> x = v \<and> INT_MIN \<le> v \<and> v \<le> INT_MAX"
  by (auto simp: c_int_def)

lemma convolve_with_Inr:
  assumes "convolve_with fmul n malloc info k = Inr st"
  obtains new pa npa where
    "malloc (size_t (sizeof_pixel_info * size_t (width info * height info))) = Some new"
    "0 < height info"
    "run_threads fmul (info_structs n (height info) pa npa k) \<lparr>image = info, new_pixel_data = new\<rparr> = Some st"
  using assms
  by (auto simp: convolve_with_def Let_def c_int_Some split: option.splits if_splits)

lemma convolve_with_frame:
  assumes "convolve_with fmul n malloc info k = Inr st"
  shows "image st = info"
    and "\<exists>new. malloc (size_t (sizeof_pixel_info * size_t (width info * height info))) = Some new
           \<and> length (new_pixel_data st) = length new"
proof -
  from assms obtain new pa npa where
    new: "malloc (size_t (sizeof_pixel_info * size_t (width info * height info))) = Some new"
    and run: "run_threads fmul (info_structs n (height info) pa npa k) \<lparr>image = info, new_pixel_data = new\<rparr> = Some st"
    by (rule convolve_with_Inr)
  from run_threads_frame [OF run] show "image st = info" by simp
  from run_threads_frame [OF run] new
  show "\<exists>new. malloc (size_t (sizeof_pixel_info * size_t (width info * height info))) = Some new
           \<and> length (new_pixel_data st) = length new"
    by simp
qed

lemma for_each_skip:
  "(\<And>i s. i \<in> set xs \<Longrightarrow> body i s = Some s) \<Longrightarrow> for_each xs body s = Some s"
  by (induction xs) simp_all

lemma convolve_threader_no_columns:
  "width (image st) \<le> 0 \<Longrightarrow> convolve_threader fmul t st = Some st"
  by (simp add: convolve_threader_def for_each_skip)

lemma run_threads_no_columns:
  "width (image st) \<le> 0 \<Longrightarrow> run_threads fmul ts st = Some st"
  by (induction ts) (simp_all add: convolve_threader_no_columns)

lemma length_info_structs: "1 \<le> n \<Longrightarrow> int (length (info_structs n h pa npa k)) = n"
  by (simp add: info_structs_def)

section \<open>The identity kernel\<close>

text \<open>
  The floating-point product is exact on the weights 0 and 1, whatever the rounding.
\<close>

lemma trunc_unsigned: "trunc (unsigned (w :: 8 word)) = uint w"
proof -
  have "trunc (real_of_int (uint w)) = uint w"
    by (simp only: trunc_def floor_of_int ceiling_of_int if_cancel)
  then show ?thesis by simp
qed

lemma tap_sum_identity:
  assumes "0 \<le> x" "x < width info" "0 \<le> y" "y < height info"
    and zero: "\<And>v. fmul v 0 = 0" and one: "\<And>v. fmul v 1 = real_of_int v"
  shows "tap_sum fmul ch info IDENTITY_KERNEL x y = uint (ch (source_at info y x))"
proof -
  have "reflect (height info) y = y" "reflect (width info) x = x"
    using assms(1-4) by (simp_all add: reflect_def)
  moreover have "trunc 0 = 0" by (simp add: trunc_def)
  ultimately show ?thesis
    by (simp add: tap_sum_def weight_def kernel_at_def IDENTITY_KERNEL_def zero one trunc_unsigned)
qed

lemma clamp_uint8: "clamp (uint (w :: 8 word)) = uint w"
  using uint8_le [of w] by (simp add: clamp_def MAX_COLOR_def)

lemma convolved_identity:
  assumes "0 \<le> x" "x < width info" "0 \<le> y" "y < height info"
    and "\<And>v. fmul v 0 = 0" and "\<And>v. fmul v 1 = real_of_int v"
  shows "convolved fmul info IDENTITY_KERNEL x y = source_at info y x"
  by (simp add: convolved_def tap_sum_identity [OF assms] clamp_uint8 to_uint8_def)

lemma convolved_grid_identity:
  assumes "pixel_grid info"
    and zero: "\<And>v. fmul v 0 = 0" and one: "\<And>v. fmul v 1 = real_of_int v"
  shows "convolved_grid fmul info IDENTITY_KERNEL = pixel_data info"
proof (rule nth_equalityI)
  have "int (length (pixel_data info)) = width info * height info"
    using assms by (simp add: pixel_grid_def)
  then have "nat (width info * height info) = length (pixel_data info)" by (metis nat_int)
  then show "length (convolved_grid fmul info IDENTITY_KERNEL) = length (pixel_data info)"
    by (simp add: convolved_grid_def)
next
  fix i assume "i < length (convolved_grid fmul info IDENTITY_KERNEL)"
  then have i: "int i < width info * height info" by (simp add: convolved_grid_def)
  let ?W = "width info"
  have W: "0 < ?W" using assms by (simp add: pixel_grid_def)
  let ?x = "int i mod ?W" and ?y = "int i div ?W"
  have x: "0 \<le> ?x" "?x < ?W" using W by simp_all
  have y0: "0 \<le> ?y" using W by (simp add: pos_imp_zdiv_nonneg_iff)
  have split: "?y * ?W + ?x = int i" by simp
  have "?y < height info"
  proof (rule ccontr)
    assume "\<not> ?y < height info"
    then have "height info * ?W \<le> ?y * ?W" using W by (intro mult_right_mono) simp_all
    moreover have "int i < height info * ?W" using i by (simp add: mult.commute)
    ultimately show False using split x(1) by linarith
  qed
  with y0 have "convolved fmul info IDENTITY_KERNEL ?x ?y = source_at info ?y ?x"
    using x zero one by (intro convolved_identity) simp_all
  then show "convolved_grid fmul info IDENTITY_KERNEL ! i = pixel_data info ! i"
    using i split by (simp add: convolved_grid_def source_at_def)
qed

lemma identity_products_fit:
  assumes "\<And>v. fmul v 0 = 0" and "\<And>v. fmul v 1 = real_of_int v"
  shows "products_fit fmul IDENTITY_KERNEL"
  using assms by (simp add: products_fit_def IDENTITY_KERNEL_def)

lemma identity_exact:
  assumes "pixel_grid info" "2 \<le> width info" "2 \<le> height info"
    and "malloc (3 * (width info * height info)) = Some new"
    and "int (length new) = width info * height info"
    and zero: "\<And>v. fmul v 0 = 0" and one: "\<And>v. fmul v 1 = real_of_int v"
  shows "convolve fmul malloc info IDENTITY_KERNEL = Inr \<lparr>image = info, new_pixel_data = pixel_data info\<rparr>"
  using convolve_total [of info fmul IDENTITY_KERNEL malloc new] assms(1-5)
    identity_products_fit [of fmul, OF zero one]
    convolved_grid_identity [of info fmul, OF assms(1) zero one]
  by simp

section \<open>The combining loop\<close>

lemma combine_loop:
  assumes "n \<le> int (length pd)" "n \<le> int (length T)" "n \<le> int (length B)"
    "n \<le> int (length L)" "n \<le> int (length R)"
  shows "\<exists>pd'. for_each [0..n - 1]
             (\<lambda>i pd. do { t \<leftarrow> load T i; b \<leftarrow> load B i; l \<leftarrow> load L i; r \<leftarrow> load R i;
                           store pd i (F t b l r) }) pd = Some pd'
           \<and> length pd' = length pd
           \<and> (\<forall>j<length pd. pd' ! j =
                 (if int j < n then F (T ! j) (B ! j) (L ! j) (R ! j) else pd ! j))"
proof (cases "0 \<le> n")
  case False
  then show ?thesis by simp
next
  case True
  let ?body = "\<lambda>i pd. do { t \<leftarrow> load T i; b \<leftarrow> load B i; l \<leftarrow> load L i; r \<leftarrow> load R i;
                           store pd i (F t b l r) }"
  let ?I = "\<lambda>i pd'. length pd' = length pd
      \<and> (\<forall>j<length pd. pd' ! j = (if int j < i then F (T ! j) (B ! j) (L ! j) (R ! j) else pd ! j))"
  have "\<exists>pd'. for_each [0..n - 1] ?body pd = Some pd' \<and> ?I (n - 1 + 1) pd'"
  proof (rule for_each_rule)
    show "0 \<le> n - 1 + 1" using True by simp
    show "?I 0 pd" by simp
  next
    fix i s
    assume i: "0 \<le> i" "i \<le> n - 1" and inv: "?I i s"
    let ?p = "F (T ! nat i) (B ! nat i) (L ! nat i) (R ! nat i)"
    have len: "i < int (length s)" using i assms inv by simp
    have "?body i s = Some (s[nat i := ?p])"
      using i len assms by (simp add: load_def store_def)
    moreover have "?I (i + 1) (s[nat i := ?p])"
      using i len inv by (auto simp: nth_list_update)
    ultimately show "\<exists>s'. ?body i s = Some s' \<and> ?I (i + 1) s'"
      by blast
  qed
  then show ?thesis by simp
qed

lemma c_MAX_max: "c_MAX a b = max a b"
  by (auto simp: c_MAX_def max_def)

lemma convolve_result_length:
  assumes grid: "pixel_grid info"
    and alloc: "malloc (3 * (width info * height info)) = Some new"
    and ret: "convolve fmul malloc info k = Inr st"
  shows "image st = info" and "length (new_pixel_data st) = length new"
proof -
  have wh: "0 \<le> width info * height info" "width info * height info \<le> INT_MAX"
    using grid by (simp_all add: pixel_grid_def)
  from ret have r: "convolve_with fmul NUM_THREADS malloc info k = Inr st" by (simp add: convolve_def)
  from convolve_with_frame(1) [OF r] show "image st = info" .
  from convolve_with_frame(2) [OF r] malloc_request [OF wh] alloc
  show "length (new_pixel_data st) = length new" by simp
qed

lemma sobel_products_fit:
  "products_fit exact_product SOBEL_T_KERNEL" "products_fit exact_product SOBEL_B_KERNEL"
  "products_fit exact_product SOBEL_L_KERNEL" "products_fit exact_product SOBEL_R_KERNEL"
  by (rule exact_products_fit;
      simp add: kernel_bounded_def WEIGHT_MAX_def SOBEL_T_KERNEL_def SOBEL_B_KERNEL_def
        SOBEL_L_KERNEL_def SOBEL_R_KERNEL_def)+

section \<open>Claims about the pointwise transforms\<close>

text \<open>
  C10. On every image, inverting twice gives back the image: each channel is mapped to
  \<open>255\<close> minus its value, and the second call undoes the first. The image is a grid as
  \<^verbatim>\<open>main\<close> builds it, so that both loops stay inside the buffer.
\<close>

theorem invert_twice:
  "pixel_grid info \<Longrightarrow> do { inverted \<leftarrow> invert info; invert inverted } = Some info"
  by (simp add: invert_eq pixel_grid_map invert_pixel_twice comp_def)

theorem invert_twice_witness:
  "pixel_grid \<lparr>width = 2, height = 1, pixel_data = [px 0 100 255, px 3 2 1]\<rparr>
   \<and> do { inverted \<leftarrow> invert \<lparr>width = 2, height = 1, pixel_data = [px 0 100 255, px 3 2 1]\<rparr>;
        invert inverted }
   = Some \<lparr>width = 2, height = 1, pixel_data = [px 0 100 255, px 3 2 1]\<rparr>"
  using invert_twice [of "\<lparr>width = 2, height = 1, pixel_data = [px 0 100 255, px 3 2 1]\<rparr>"]
  by (simp add: pixel_grid_def INT_MAX_def)

text \<open>
  C8. \<^verbatim>\<open>set_dim_to_black\<close> returns an image of the same dimensions in which exactly the
  pixels whose truncated average \<open>(r + g + b) div 3\<close> is strictly below
  \<^verbatim>\<open>HIGH_PASS_THRESHOLD\<close> have all three channels zero; every other pixel, so also one
  whose average equals the threshold, is unchanged.
\<close>

theorem set_dim_to_black_threshold:
  assumes "pixel_grid info"
  shows "\<exists>out. set_dim_to_black info = Some out
           \<and> width out = width info \<and> height out = height info
           \<and> length (pixel_data out) = length (pixel_data info)
           \<and> (\<forall>i<length (pixel_data info).
                 let p = pixel_data info ! i; q = pixel_data out ! i
                 in if (uint (red p) + uint (green p) + uint (blue p)) div 3 < HIGH_PASS_THRESHOLD
                    then red q = 0 \<and> green q = 0 \<and> blue q = 0
                    else q = p)"
  using assms by (simp add: set_dim_to_black_eq dim_pixel_def uint_average Let_def)

theorem set_dim_to_black_threshold_witness:
  "pixel_grid \<lparr>width = 3, height = 1, pixel_data = [px 59 60 60, px 60 60 60, px 200 10 0]\<rparr>
   \<and> (\<exists>out. set_dim_to_black
               \<lparr>width = 3, height = 1, pixel_data = [px 59 60 60, px 60 60 60, px 200 10 0]\<rparr>
             = Some out
         \<and> red (pixel_data out ! 0) = 0 \<and> green (pixel_data out ! 0) = 0
         \<and> blue (pixel_data out ! 0) = 0
         \<and> pixel_data out ! 1 = px 60 60 60 \<and> pixel_data out ! 2 = px 200 10 0)"
proof -
  let ?g = "\<lparr>width = 3, height = 1, pixel_data = [px 59 60 60, px 60 60 60, px 200 10 0]\<rparr>"
  have g: "pixel_grid ?g" by (simp add: pixel_grid_def INT_MAX_def)
  from set_dim_to_black_threshold [OF g] obtain out where
    out: "set_dim_to_black ?g = Some out"
      "\<forall>i<3. let p = pixel_data ?g ! i; q = pixel_data out ! i
                 in if (uint (red p) + uint (green p) + uint (blue p)) div 3 < HIGH_PASS_THRESHOLD
                    then red q = 0 \<and> green q = 0 \<and> blue q = 0
                    else q = p"
    by auto
  from out(2) have "red (pixel_data out ! 0) = 0 \<and> green (pixel_data out ! 0) = 0
         \<and> blue (pixel_data out ! 0) = 0"
    by (simp add: px_def HIGH_PASS_THRESHOLD_def Let_def)
  moreover from out(2) have "pixel_data out ! 1 = px 60 60 60"
    by (simp add: px_def HIGH_PASS_THRESHOLD_def Let_def)
  moreover from out(2) have "pixel_data out ! 2 = px 200 10 0"
    by (simp add: px_def HIGH_PASS_THRESHOLD_def Let_def)
  ultimately show ?thesis using g out(1) by simp
qed


section \<open>Claims about the border reflection\<close>

text \<open>
  C2, as the code has it. For an axis of length \<open>n \<ge> 2\<close> and a coordinate \<open>c\<close> that
  oversteps by at most one pixel (\<open>- 1 \<le> c \<le> n\<close>): a negative \<open>c\<close> is mapped to \<open>- c\<close>,
  a coordinate \<open>c \<ge> n\<close> to \<open>2 * n - 2 - c\<close>, a coordinate inside the axis to itself, and
  the result lies in \<open>[0, n)\<close>.
\<close>

theorem reflect_single_overstep:
  "2 \<le> n \<Longrightarrow> - 1 \<le> c \<Longrightarrow> c \<le> n \<Longrightarrow>
     (c < 0 \<longrightarrow> reflect n c = - c) \<and> (n \<le> c \<longrightarrow> reflect n c = 2 * n - 2 - c)
     \<and> (0 \<le> c \<and> c < n \<longrightarrow> reflect n c = c) \<and> 0 \<le> reflect n c \<and> reflect n c < n"
  by (auto simp: reflect_def Let_def)

theorem reflect_single_overstep_witness:
  "(2::int) \<le> 5 \<and> reflect 5 (- 1) = 1 \<and> reflect 5 5 = 3 \<and> reflect 5 2 = 2"
  using reflect_single_overstep [of 5 "- 1"] reflect_single_overstep [of 5 5]
    reflect_single_overstep [of 5 2] by simp

text \<open>
  The rule \<open>c \<ge> N \<mapsto> 2 * N - 1 - c\<close> of C2 fails: on an axis of length 5 the
  coordinate 5 is mapped to 3, not to 4.
\<close>

theorem reflect_counterexample:
  "1 \<le> (5::int) \<and> (5::int) \<ge> 5 \<and> reflect 5 5 \<noteq> 2 * 5 - 1 - 5"
  by (simp add: reflect_def)

section \<open>Claims about the convolution\<close>

text \<open>
  C1, as the code has it. On an image with at least two rows and two columns, for a
  kernel whose products with the channel values 0..255 have magnitude at most 238609110
  (with exact products: whose weights have magnitude at most \<open>WEIGHT_MAX\<close>), and when the
  allocation succeeds, \<^verbatim>\<open>convolve\<close> returns, and each channel of the output pixel
  \<open>(x, y)\<close> is the sum over \<open>dy, dx \<in> {- 1, 0, 1}\<close> of the floating-point products
  \<open>source[reflect (y + dy), reflect (x + dx)] * kernel[1 - dy][dx + 1]\<close>, each product
  truncated to an integer on its own, the sum of the nine integers then clamped to 0..255.
\<close>

theorem convolve_channels:
  assumes "pixel_grid info" "2 \<le> width info" "2 \<le> height info" "products_fit fmul k"
    and "malloc (3 * (width info * height info)) = Some new"
    and "int (length new) = width info * height info"
  shows "\<exists>st. convolve fmul malloc info k = Inr st \<and>
     (\<forall>x y. 0 \<le> x \<and> x < width info \<and> 0 \<le> y \<and> y < height info \<longrightarrow>
        (\<forall>ch \<in> {red, green, blue}.
           uint (ch (new_pixel_data st ! nat (y * width info + x))) =
             clamp (\<Sum>dy\<leftarrow>[- 1, 0, 1]. \<Sum>dx\<leftarrow>[- 1, 0, 1].
                      trunc (fmul (uint (ch (source_at info (reflect (height info) (y + dy))
                                                            (reflect (width info) (x + dx)))))
                                  (weight k (1 - dy) (dx + 1))))))"
proof -
  have "uint (ch (convolved fmul info k x y)) = clamp (tap_sum fmul ch info k x y)"
    if "ch \<in> {red, green, blue}" for ch x y
    using that by (auto simp: convolved_def uint_clamp)
  moreover have "convolve fmul malloc info k = Inr \<lparr>image = info, new_pixel_data = convolved_grid fmul info k\<rparr>"
    by (rule convolve_total) (fact assms)+
  ultimately show ?thesis
    unfolding tap_sum_def [symmetric]
    by (simp add: convolved_grid_nth)
qed

theorem convolve_channels_witness:
  "pixel_grid \<lparr>width = 2, height = 2, pixel_data = [px 10 20 30, px 40 50 60, px 70 80 90, px 100 110 120]\<rparr>
   \<and> products_fit exact_product GAUSSIAN_BLUR_KERNEL
   \<and> (\<exists>st. convolve exact_product zero_malloc
              \<lparr>width = 2, height = 2, pixel_data = [px 10 20 30, px 40 50 60, px 70 80 90, px 100 110 120]\<rparr>
              GAUSSIAN_BLUR_KERNEL = Inr st
         \<and> uint (red (new_pixel_data st ! 0)) = 52)"
proof -
  let ?g = "\<lparr>width = 2, height = 2, pixel_data = [px 10 20 30, px 40 50 60, px 70 80 90, px 100 110 120]\<rparr>"
  let ?sum = "\<lambda>ch x y. clamp (\<Sum>dy\<leftarrow>[- 1, 0, 1]. \<Sum>dx\<leftarrow>[- 1, 0, 1].
                      trunc (exact_product (uint (ch (source_at ?g (reflect (height ?g) (y + dy))
                                                                     (reflect (width ?g) (x + dx)))))
                                           (weight GAUSSIAN_BLUR_KERNEL (1 - dy) (dx + 1))))"
  have g: "pixel_grid ?g" by (simp add: pixel_grid_def INT_MAX_def)
  have k: "products_fit exact_product GAUSSIAN_BLUR_KERNEL"
    by (rule exact_products_fit)
      (simp add: kernel_bounded_def GAUSSIAN_BLUR_KERNEL_def WEIGHT_MAX_def)
  have m: "zero_malloc (3 * (width ?g * height ?g)) = Some (replicate 4 (px 0 0 0))"
    by (simp add: zero_malloc_def sizeof_pixel_info_def eval_nat_numeral)
  have "\<exists>st. convolve exact_product zero_malloc ?g GAUSSIAN_BLUR_KERNEL = Inr st \<and>
     (\<forall>x y. 0 \<le> x \<and> x < width ?g \<and> 0 \<le> y \<and> y < height ?g \<longrightarrow>
        (\<forall>ch \<in> {red, green, blue}.
           uint (ch (new_pixel_data st ! nat (y * width ?g + x))) = ?sum ch x y))"
    by (rule convolve_channels [of ?g exact_product GAUSSIAN_BLUR_KERNEL zero_malloc "replicate 4 (px 0 0 0)"])
      (use g k m in simp_all)
  then obtain st where st: "convolve exact_product zero_malloc ?g GAUSSIAN_BLUR_KERNEL = Inr st"
    and ch: "\<forall>x y. 0 \<le> x \<and> x < width ?g \<and> 0 \<le> y \<and> y < height ?g \<longrightarrow>
        (\<forall>ch \<in> {red, green, blue}.
           uint (ch (new_pixel_data st ! nat (y * width ?g + x))) = ?sum ch x y)"
    by blast
  from ch [rule_format, of 0 0 red]
  have "uint (red (new_pixel_data st ! 0)) = 52"
    by (simp add: reflect_def source_at_def weight_def kernel_at_def GAUSSIAN_BLUR_KERNEL_def
        px_def trunc_def clamp_def MAX_COLOR_def exact_product_def)
  with g k st show ?thesis by blast
qed

text \<open>
  The formula of C1 truncates once, after the sum. On a 2 by 2 image whose channels are
  all 1 and with all weights one half, every product is 0.5 and is truncated to 0, so the
  code stores 0 in every channel; the real sum is 4.5, and the formula of the specification
  gives 4.
\<close>

theorem convolve_truncation_counterexample:
  "convolve exact_product zero_malloc
     \<lparr>width = 2, height = 2, pixel_data = [px 1 1 1, px 1 1 1, px 1 1 1, px 1 1 1]\<rparr>
     ((1/2, 1/2, 1/2), (1/2, 1/2, 1/2), (1/2, 1/2, 1/2))
   = Inr \<lparr>image = \<lparr>width = 2, height = 2, pixel_data = [px 1 1 1, px 1 1 1, px 1 1 1, px 1 1 1]\<rparr>,
          new_pixel_data = [px 0 0 0, px 0 0 0, px 0 0 0, px 0 0 0]\<rparr>
   \<and> spec_channel red
        \<lparr>width = 2, height = 2, pixel_data = [px 1 1 1, px 1 1 1, px 1 1 1, px 1 1 1]\<rparr>
        ((1/2, 1/2, 1/2), (1/2, 1/2, 1/2), (1/2, 1/2, 1/2)) 0 0 = 4"
  by code_simp

text \<open>
  C6, as the code has it. On an image with at least two rows and two columns, for a
  kernel whose products fit (as in C1) and when the allocation succeeds, the output of
  \<^verbatim>\<open>convolve\<close> depends on the image and the kernel only (and on the floating-point
  product): for every number \<open>n \<ge> 1\<close> of bands, the last band taking the remaining rows,
  the call with \<open>n\<close> bands returns the block \<open>convolved_grid fmul info k\<close>, and so do the
  call with the single band of all rows and \<^verbatim>\<open>convolve\<close> itself with its 20 bands; and
  the workers of the \<open>n\<close> bands turn the allocated block into this block in whichever
  order they are run, each of them at least once.
\<close>

theorem convolve_band_partition:
  assumes "1 \<le> n" "pixel_grid info" "2 \<le> width info" "2 \<le> height info" "products_fit fmul k"
    and "malloc (3 * (width info * height info)) = Some new"
    and "int (length new) = width info * height info"
  shows "convolve_with fmul n malloc info k =
           Inr \<lparr>image = info, new_pixel_data = convolved_grid fmul info k\<rparr>
    \<and> convolve_with fmul 1 malloc info k =
           Inr \<lparr>image = info, new_pixel_data = convolved_grid fmul info k\<rparr>
    \<and> convolve fmul malloc info k =
           Inr \<lparr>image = info, new_pixel_data = convolved_grid fmul info k\<rparr>
    \<and> (\<forall>pa npa ts.
          row_pointers (pixel_data info) (width info) (height info) = Some pa
          \<and> row_pointers new (width info) (height info) = Some npa
          \<and> set ts = set (info_structs n (height info) pa npa k) \<longrightarrow>
          run_threads fmul ts \<lparr>image = info, new_pixel_data = new\<rparr> =
            Some \<lparr>image = info, new_pixel_data = convolved_grid fmul info k\<rparr>)"
proof -
  let ?W = "width info" and ?H = "height info"
  let ?rows = "map (\<lambda>i. i * ?W) [0..?H - 1]"
  have "convolve_with fmul m malloc info k =
      Inr \<lparr>image = info, new_pixel_data = convolved_grid fmul info k\<rparr>" if "1 \<le> m" for m
    using assms(2-5) that assms(6,7) by (rule convolve_with_total)
  from this [of n] this [of 1] this [of NUM_THREADS] assms(1)
  have calls: "convolve_with fmul n malloc info k =
           Inr \<lparr>image = info, new_pixel_data = convolved_grid fmul info k\<rparr>"
     "convolve_with fmul 1 malloc info k =
           Inr \<lparr>image = info, new_pixel_data = convolved_grid fmul info k\<rparr>"
     "convolve fmul malloc info k =
           Inr \<lparr>image = info, new_pixel_data = convolved_grid fmul info k\<rparr>"
    by (simp_all add: convolve_def NUM_THREADS_def)
  have len: "int (length (pixel_data info)) = ?W * ?H"
    using assms(2) by (simp add: pixel_grid_def)
  have pa: "row_pointers (pixel_data info) ?W ?H = Some ?rows"
    using assms(3) len by (intro row_pointers_grid) simp_all
  have npa: "row_pointers new ?W ?H = Some ?rows"
    using assms(3,7) by (intro row_pointers_grid) simp_all
  have "run_threads fmul ts \<lparr>image = info, new_pixel_data = new\<rparr> =
      Some \<lparr>image = info, new_pixel_data = convolved_grid fmul info k\<rparr>"
    if "set ts = set (info_structs n ?H ?rows ?rows k)" for ts
    using assms(2-5,1,7) that by (rule workers_any_order)
  with calls pa npa show ?thesis by simp
qed

theorem convolve_band_partition_witness:
  "(1::int) \<le> 20 \<and> pixel_grid tall_image \<and> products_fit exact_product GAUSSIAN_BLUR_KERNEL
   \<and> zero_malloc (3 * (width tall_image * height tall_image)) = Some (replicate 86 (px 0 0 0))
   \<and> map (\<lambda>t. (start_y t, end_y t))
         (info_structs 20 (height tall_image) (map (\<lambda>i. i * 2) [0..42]) (map (\<lambda>i. i * 2) [0..42])
            GAUSSIAN_BLUR_KERNEL)
       = [(0, 2), (2, 4), (4, 6), (6, 8), (8, 10), (10, 12), (12, 14), (14, 16), (16, 18),
          (18, 20), (20, 22), (22, 24), (24, 26), (26, 28), (28, 30), (30, 32), (32, 34),
          (34, 36), (36, 38), (38, 43)]
   \<and> convolve_with exact_product 20 zero_malloc tall_image GAUSSIAN_BLUR_KERNEL =
       Inr \<lparr>image = tall_image,
            new_pixel_data = convolved_grid exact_product tall_image GAUSSIAN_BLUR_KERNEL\<rparr>
   \<and> convolve_with exact_product 1 zero_malloc tall_image GAUSSIAN_BLUR_KERNEL =
       Inr \<lparr>image = tall_image,
            new_pixel_data = convolved_grid exact_product tall_image GAUSSIAN_BLUR_KERNEL\<rparr>
   \<and> convolve exact_product zero_malloc tall_image GAUSSIAN_BLUR_KERNEL =
       Inr \<lparr>image = tall_image,
            new_pixel_data = convolved_grid exact_product tall_image GAUSSIAN_BLUR_KERNEL\<rparr>
   \<and> run_threads exact_product
       (rev (info_structs 20 (height tall_image) (map (\<lambda>i. i * 2) [0..42]) (map (\<lambda>i. i * 2) [0..42])
               GAUSSIAN_BLUR_KERNEL))
       \<lparr>image = tall_image, new_pixel_data = replicate 86 (px 0 0 0)\<rparr> =
       Some \<lparr>image = tall_image,
             new_pixel_data = convolved_grid exact_product tall_image GAUSSIAN_BLUR_KERNEL\<rparr>"
proof -
  let ?rows = "map (\<lambda>i. i * 2) [0..42]"
  let ?new = "replicate 86 (px 0 0 0)"
  let ?out = "\<lparr>image = tall_image,
             new_pixel_data = convolved_grid exact_product tall_image GAUSSIAN_BLUR_KERNEL\<rparr>"
  have n: "(1::int) \<le> 20" by simp
  have g: "pixel_grid tall_image" by (simp add: pixel_grid_def tall_image_def INT_MAX_def)
  have W: "2 \<le> width tall_image" and H: "2 \<le> height tall_image"
    by (simp_all add: tall_image_def)
  have k: "products_fit exact_product GAUSSIAN_BLUR_KERNEL"
    by (rule exact_products_fit)
      (simp add: kernel_bounded_def GAUSSIAN_BLUR_KERNEL_def WEIGHT_MAX_def)
  have m: "zero_malloc (3 * (width tall_image * height tall_image)) = Some ?new"
    by (simp add: zero_malloc_def sizeof_pixel_info_def tall_image_def eval_nat_numeral)
  have l: "int (length ?new) = width tall_image * height tall_image"
    by (simp add: tall_image_def)
  have bands: "map (\<lambda>t. (start_y t, end_y t))
         (info_structs 20 (height tall_image) ?rows ?rows GAUSSIAN_BLUR_KERNEL)
       = [(0, 2), (2, 4), (4, 6), (6, 8), (8, 10), (10, 12), (12, 14), (14, 16), (16, 18),
          (18, 20), (20, 22), (22, 24), (24, 26), (26, 28), (28, 30), (30, 32), (32, 34),
          (34, 36), (36, 38), (38, 43)]"
    by code_simp
  have pa: "row_pointers (pixel_data tall_image) (width tall_image) (height tall_image) = Some ?rows"
    using row_pointers_grid [of 2 "pixel_data tall_image" 43]
    by (simp add: tall_image_def)
  have npa: "row_pointers ?new (width tall_image) (height tall_image) = Some ?rows"
    using row_pointers_grid [of 2 ?new 43]
    by (simp add: tall_image_def)
  note inst = convolve_band_partition [where n = 20 and info = tall_image and fmul = exact_product
      and k = GAUSSIAN_BLUR_KERNEL and malloc = zero_malloc and new = ?new, OF n g W H k m l]
  have order: "run_threads exact_product
       (rev (info_structs 20 (height tall_image) ?rows ?rows GAUSSIAN_BLUR_KERNEL))
       \<lparr>image = tall_image, new_pixel_data = ?new\<rparr> = Some ?out"
    using inst [THEN conjunct2, THEN conjunct2, THEN conjunct2, rule_format,
        of ?rows ?rows "rev (info_structs 20 (height tall_image) ?rows ?rows GAUSSIAN_BLUR_KERNEL)"]
      pa npa by simp
  from n g k m bands inst [THEN conjunct1] inst [THEN conjunct2, THEN conjunct1]
    inst [THEN conjunct2, THEN conjunct2, THEN conjunct1] order
  show ?thesis by blast
qed

text \<open>
  C6 promises an output grid for every grid and kernel. With all weights
  \<open>2\<^sup>2\<^sup>3 = 8388608\<close> on a white image each product \<open>255 * 8388608 = 2139095040\<close> is an
  \<^verbatim>\<open>int\<close>, but the sum of two of them is not: the second addition to the accumulator
  overflows, which is undefined in C, and neither the call with 20 bands nor the call
  with a single band has a defined output.
\<close>

theorem convolve_accumulator_counterexample:
  "convolve exact_product zero_malloc
     \<lparr>width = 2, height = 2, pixel_data = [px 255 255 255, px 255 255 255, px 255 255 255, px 255 255 255]\<rparr>
     ((8388608, 8388608, 8388608), (8388608, 8388608, 8388608), (8388608, 8388608, 8388608))
   = Inl UndefinedBehaviour
   \<and> convolve_with exact_product 1 zero_malloc
     \<lparr>width = 2, height = 2, pixel_data = [px 255 255 255, px 255 255 255, px 255 255 255, px 255 255 255]\<rparr>
     ((8388608, 8388608, 8388608), (8388608, 8388608, 8388608), (8388608, 8388608, 8388608))
   = Inl UndefinedBehaviour
   \<and> double_to_int (exact_product 255 8388608) = Some 2139095040
   \<and> c_int (2139095040 + 2139095040) = None"
  by code_simp

text \<open>
  On an image with a single column the reflected column index is \<open>- 1\<close>, as in C5, and the
  call is undefined with 20 bands and with one.
\<close>

lemma single_column_bands_undefined:
  "convolve exact_product zero_malloc
     \<lparr>width = 1, height = 3, pixel_data = [px 10 20 30, px 40 50 60, px 70 80 90]\<rparr> GAUSSIAN_BLUR_KERNEL
   = Inl UndefinedBehaviour
   \<and> convolve_with exact_product 1 zero_malloc
     \<lparr>width = 1, height = 3, pixel_data = [px 10 20 30, px 40 50 60, px 70 80 90]\<rparr> GAUSSIAN_BLUR_KERNEL
   = Inl UndefinedBehaviour"
  by code_simp

text \<open>
  C9, as the code has it. Under the conditions of C1 the call returns a block of
  \<open>width * height\<close> pixels and leaves the image (its dimensions and every pixel of its
  buffer) as it was; and whenever any call returns at all, the image is as it was.
\<close>

theorem convolve_frame:
  assumes "pixel_grid info" "2 \<le> width info" "2 \<le> height info" "products_fit fmul k"
    and "malloc (3 * (width info * height info)) = Some new"
    and "int (length new) = width info * height info"
  shows "(\<exists>st. convolve fmul malloc info k = Inr st \<and> image st = info
            \<and> int (length (new_pixel_data st)) = width info * height info)
    \<and> (\<forall>malloc' info' k' st'. convolve fmul malloc' info' k' = Inr st' \<longrightarrow> image st' = info')"
proof -
  have "convolve fmul malloc info k = Inr \<lparr>image = info, new_pixel_data = convolved_grid fmul info k\<rparr>"
    by (rule convolve_total) (fact assms)+
  moreover have "int (length (convolved_grid fmul info k)) = width info * height info"
    using assms(1) by (simp add: convolved_grid_def pixel_grid_def)
  ultimately show ?thesis
    using convolve_with_frame(1) by (auto simp: convolve_def)
qed

theorem convolve_frame_witness:
  "pixel_grid \<lparr>width = 2, height = 2, pixel_data = [px 10 20 30, px 40 50 60, px 70 80 90, px 100 110 120]\<rparr>
   \<and> products_fit exact_product SOBEL_T_KERNEL
   \<and> (\<exists>st. convolve exact_product zero_malloc
              \<lparr>width = 2, height = 2, pixel_data = [px 10 20 30, px 40 50 60, px 70 80 90, px 100 110 120]\<rparr>
              SOBEL_T_KERNEL = Inr st
         \<and> image st = \<lparr>width = 2, height = 2, pixel_data = [px 10 20 30, px 40 50 60, px 70 80 90, px 100 110 120]\<rparr>
         \<and> length (new_pixel_data st) = 4)"
proof -
  let ?g = "\<lparr>width = 2, height = 2, pixel_data = [px 10 20 30, px 40 50 60, px 70 80 90, px 100 110 120]\<rparr>"
  have g: "pixel_grid ?g" by (simp add: pixel_grid_def INT_MAX_def)
  have k: "products_fit exact_product SOBEL_T_KERNEL"
    by (rule exact_products_fit)
      (simp add: kernel_bounded_def SOBEL_T_KERNEL_def WEIGHT_MAX_def)
  have m: "zero_malloc (3 * (width ?g * height ?g)) = Some (replicate 4 (px 0 0 0))"
    by (simp add: zero_malloc_def sizeof_pixel_info_def eval_nat_numeral)
  have "(\<exists>st. convolve exact_product zero_malloc ?g SOBEL_T_KERNEL = Inr st \<and> image st = ?g
            \<and> int (length (new_pixel_data st)) = width ?g * height ?g)
    \<and> (\<forall>malloc' info' k' st'. convolve exact_product malloc' info' k' = Inr st' \<longrightarrow> image st' = info')"
    by (rule convolve_frame [of ?g exact_product SOBEL_T_KERNEL zero_malloc "replicate 4 (px 0 0 0)"])
      (use g k m in simp_all)
  with g k show ?thesis by auto
qed

text \<open>
  C9 promises a result for every kernel. With the weight \<open>10\<^sup>8\<close> the product
  \<open>255 * 10\<^sup>8\<close> does not fit an \<^verbatim>\<open>int\<close>, its conversion is undefined, and the call has
  no defined result.
\<close>

theorem convolve_overflow_counterexample:
  "convolve exact_product zero_malloc
     \<lparr>width = 2, height = 2, pixel_data = [px 255 255 255, px 255 255 255, px 255 255 255, px 255 255 255]\<rparr>
     ((0, 0, 0), (0, 100000000, 0), (0, 0, 0))
   = Inl UndefinedBehaviour"
  by code_simp

text \<open>
  C3, as the code has it. \<^verbatim>\<open>convolve\<close> does not check the dimensions. With
  \<open>width \<le> 0\<close> or \<open>height \<le> 0\<close>, a call that returns has written no pixel: it returns
  the block as \<^verbatim>\<open>malloc\<close> gave it. With \<open>width = 0\<close> and \<open>height \<ge> 1\<close> the only error
  is the failed allocation; otherwise all 20 workers are created and the call returns.
\<close>

theorem convolve_no_dimension_check:
  assumes "width info \<le> 0 \<or> height info \<le> 0"
  shows "(\<forall>st. convolve fmul malloc info k = Inr st \<longrightarrow>
            image st = info
            \<and> malloc (size_t (sizeof_pixel_info * size_t (width info * height info)))
                = Some (new_pixel_data st))
    \<and> (width info = 0 \<and> 1 \<le> height info \<longrightarrow>
          length (info_structs NUM_THREADS (height info) pa npa k) = 20
          \<and> convolve fmul malloc info k =
              (case malloc 0 of
                 None \<Rightarrow> Inl AllocationFailure
               | Some new \<Rightarrow> Inr \<lparr>image = info, new_pixel_data = new\<rparr>))"
proof (intro conjI allI impI)
  fix st assume "convolve fmul malloc info k = Inr st"
  then have st: "convolve_with fmul NUM_THREADS malloc info k = Inr st" by (simp add: convolve_def)
  then obtain new pa' npa' where
    new: "malloc (size_t (sizeof_pixel_info * size_t (width info * height info))) = Some new"
    and h: "0 < height info"
    and run: "run_threads fmul (info_structs NUM_THREADS (height info) pa' npa' k)
                \<lparr>image = info, new_pixel_data = new\<rparr> = Some st"
    by (rule convolve_with_Inr)
  from h assms have w: "width info \<le> 0" by simp
  then have "st = \<lparr>image = info, new_pixel_data = new\<rparr>"
    using run by (simp add: run_threads_no_columns)
  with new show "image st = info"
    and "malloc (size_t (sizeof_pixel_info * size_t (width info * height info)))
                = Some (new_pixel_data st)"
    by simp_all
next
  assume a: "width info = 0 \<and> 1 \<le> height info"
  show "length (info_structs NUM_THREADS (height info) pa npa k) = 20"
    using length_info_structs [of NUM_THREADS "height info" pa npa k]
    by (simp add: NUM_THREADS_def)
  have rp: "row_pointers buf 0 (height info) = Some (map (\<lambda>i. i * 0) [0..height info - 1])" for buf
    by (simp add: row_pointers_def list_all_iff)
  show "convolve fmul malloc info k =
              (case malloc 0 of
                 None \<Rightarrow> Inl AllocationFailure
               | Some new \<Rightarrow> Inr \<lparr>image = info, new_pixel_data = new\<rparr>)"
    using a rp
    by (simp add: convolve_def convolve_with_def c_int_def INT_MIN_def INT_MAX_def size_t_def
        run_threads_no_columns split: option.splits)
qed

theorem convolve_no_dimension_check_witness:
  "(width \<lparr>width = 0, height = 3, pixel_data = []\<rparr> \<le> 0
      \<or> height \<lparr>width = 0, height = 3, pixel_data = []\<rparr> \<le> 0)
   \<and> convolve exact_product zero_malloc \<lparr>width = 0, height = 3, pixel_data = []\<rparr> SOBEL_L_KERNEL
     = Inr \<lparr>image = \<lparr>width = 0, height = 3, pixel_data = []\<rparr>, new_pixel_data = []\<rparr>"
  using convolve_no_dimension_check [of "\<lparr>width = 0, height = 3, pixel_data = []\<rparr>" exact_product zero_malloc
      SOBEL_L_KERNEL]
  by (simp add: zero_malloc_def)

text \<open>
  C3 says that a call with \<open>W \<le> 0\<close> is rejected. The call on an image of width 0 and
  height 1 returns normally, with the empty block.
\<close>

theorem zero_width_counterexample:
  "convolve exact_product zero_malloc \<lparr>width = 0, height = 1, pixel_data = []\<rparr> IDENTITY_KERNEL
   = Inr \<lparr>image = \<lparr>width = 0, height = 1, pixel_data = []\<rparr>, new_pixel_data = []\<rparr>"
  by code_simp

text \<open>
  C4 at a failing input. On a 1 by 1 image the neighbour row \<open>- 1\<close> is reflected to
  row 1, which is not below the height 1 and is moved to \<open>1 - 2 = - 1\<close>: the worker reads
  \<^verbatim>\<open>pixel_array[-1]\<close>, outside the array, and the call with the identity kernel has no
  defined result instead of returning the image.
\<close>

theorem identity_single_pixel:
  "convolve exact_product zero_malloc \<lparr>width = 1, height = 1, pixel_data = [px 10 20 30]\<rparr> IDENTITY_KERNEL
   = Inl UndefinedBehaviour"
  by code_simp

text \<open>
  C5 on the code. On a 1 by 1 image the reflection of the neighbour coordinates \<open>- 1\<close>
  and \<open>1\<close> is \<open>- 1\<close>, not 0, and for every kernel and every pixel value the first read of
  the worker is \<^verbatim>\<open>pixel_array[-1]\<close>: the call has no defined result, where C5 says that
  all nine products are taken from the single pixel.
\<close>

theorem single_pixel_undefined:
  assumes "malloc 3 = Some new"
  shows "reflect 1 (- 1) = - 1 \<and> reflect 1 1 = - 1
    \<and> convolve fmul malloc \<lparr>width = 1, height = 1, pixel_data = [p]\<rparr> k = Inl UndefinedBehaviour"
proof -
  let ?info = "\<lparr>width = 1, height = 1, pixel_data = [p]\<rparr>"
  let ?t = "\<lparr>start_y = 0, end_y = 1, pixel_array = [0], new_pixel_array = [0], kernel = k\<rparr>"
  have "tap fmul ?t ?info 0 0 (- 1) (- 1) (0, 0, 0) = None"
    by (simp add: tap_def reflect_def row_at_def)
  then have "convolve_pixel fmul ?t ?info 0 0 = None"
    by (simp add: convolve_pixel_def radius_def upto_rec1)
  then have "convolve_threader fmul ?t \<lparr>image = ?info, new_pixel_data = new\<rparr> = None"
    by (simp add: convolve_threader_def store_pixel_def)
  then have "run_threads fmul (info_structs NUM_THREADS 1 [0] [0] k) \<lparr>image = ?info, new_pixel_data = new\<rparr> = None"
    by (simp add: run_threads_info_structs NUM_THREADS_def)
  moreover have "row_pointers buf 1 1 = Some [0]" for buf
    by (simp add: row_pointers_def)
  moreover have "size_t (sizeof_pixel_info * size_t 1) = 3"
    by (simp add: size_t_def sizeof_pixel_info_def SIZE_MAX_def)
  ultimately have "convolve fmul malloc ?info k = Inl UndefinedBehaviour"
    using assms by (simp add: convolve_def convolve_with_def c_int_def INT_MIN_def INT_MAX_def)
  then show ?thesis by (simp add: reflect_def)
qed

theorem single_pixel_undefined_witness:
  "zero_malloc 3 = Some [px 0 0 0]
   \<and> convolve exact_product zero_malloc \<lparr>width = 1, height = 1, pixel_data = [px 200 100 50]\<rparr>
       ((0.11, 0.11, 0.11), (0.11, 0.12, 0.11), (0.11, 0.11, 0.11)) = Inl UndefinedBehaviour"
  using single_pixel_undefined [of zero_malloc "[px 0 0 0]" exact_product "px 200 100 50"
      "((0.11, 0.11, 0.11), (0.11, 0.12, 0.11), (0.11, 0.11, 0.11))"]
  by (simp add: zero_malloc_def sizeof_pixel_info_def)

section \<open>Claims about the edge detection\<close>

text \<open>
  C7. On every image, whenever the four directional convolutions return, the gradient
  step returns an image of the same dimensions in which, at every pixel index and for each
  channel on its own, the value is the maximum of that channel in the four convolution
  outputs at the same index. On an image with at least two rows and two columns the four
  convolutions do return, provided the products with the Sobel weights fit.
\<close>

theorem canny_gradient_channel_max:
  assumes grid: "pixel_grid info"
    and alloc: "malloc (3 * (width info * height info)) = Some new"
    and len: "int (length new) = width info * height info"
  shows "(\<forall>st_t st_b st_l st_r.
            convolve fmul malloc info SOBEL_T_KERNEL = Inr st_t \<and>
            convolve fmul malloc info SOBEL_B_KERNEL = Inr st_b \<and>
            convolve fmul malloc info SOBEL_L_KERNEL = Inr st_l \<and>
            convolve fmul malloc info SOBEL_R_KERNEL = Inr st_r \<longrightarrow>
            (\<exists>out. canny_gradient fmul malloc info = Inr out
               \<and> width out = width info \<and> height out = height info
               \<and> length (pixel_data out) = length (pixel_data info)
               \<and> (\<forall>i<length (pixel_data info). \<forall>ch \<in> {red, green, blue}.
                     ch (pixel_data out ! i) =
                       max (max (ch (new_pixel_data st_t ! i)) (ch (new_pixel_data st_b ! i)))
                           (max (ch (new_pixel_data st_l ! i)) (ch (new_pixel_data st_r ! i))))))
    \<and> (2 \<le> width info \<and> 2 \<le> height info
         \<and> products_fit fmul SOBEL_T_KERNEL \<and> products_fit fmul SOBEL_B_KERNEL
         \<and> products_fit fmul SOBEL_L_KERNEL \<and> products_fit fmul SOBEL_R_KERNEL \<longrightarrow>
          (\<exists>st_t st_b st_l st_r.
            convolve fmul malloc info SOBEL_T_KERNEL = Inr st_t \<and>
            convolve fmul malloc info SOBEL_B_KERNEL = Inr st_b \<and>
            convolve fmul malloc info SOBEL_L_KERNEL = Inr st_l \<and>
            convolve fmul malloc info SOBEL_R_KERNEL = Inr st_r))"
proof (intro conjI allI impI)
  fix st_t st_b st_l st_r
  assume ret: "convolve fmul malloc info SOBEL_T_KERNEL = Inr st_t \<and>
            convolve fmul malloc info SOBEL_B_KERNEL = Inr st_b \<and>
            convolve fmul malloc info SOBEL_L_KERNEL = Inr st_l \<and>
            convolve fmul malloc info SOBEL_R_KERNEL = Inr st_r"
  let ?n = "width info * height info"
  let ?T = "new_pixel_data st_t" and ?B = "new_pixel_data st_b"
  let ?L = "new_pixel_data st_l" and ?R = "new_pixel_data st_r"
  let ?F = "\<lambda>t b l r. \<lparr>blue = c_MAX (c_MAX (blue t) (blue b)) (c_MAX (blue l) (blue r)),
                   green = c_MAX (c_MAX (green t) (green b)) (c_MAX (green l) (green r)),
                   red = c_MAX (c_MAX (red t) (red b)) (c_MAX (red l) (red r))\<rparr>"
  have rl: "image st = info \<and> int (length (new_pixel_data st)) = ?n"
    if "convolve fmul malloc info k = Inr st" for k st
    using convolve_result_length [of info malloc new fmul k st] grid alloc that len by simp
  have im: "image st_t = info" "image st_b = info" "image st_l = info" "image st_r = info"
    using ret rl by blast+
  have lens: "int (length ?T) = ?n" "int (length ?B) = ?n" "int (length ?L) = ?n" "int (length ?R) = ?n"
    using ret rl by blast+
  have n: "0 \<le> ?n" "?n \<le> INT_MAX" "int (length (pixel_data info)) = ?n"
    using grid by (simp_all add: pixel_grid_def)
  have c: "c_int ?n = Some ?n" using n by (simp add: c_int_def INT_MIN_def)
  from combine_loop [of ?n "pixel_data info" ?T ?B ?L ?R ?F] n lens
  obtain pd' where pd': "for_each [0..?n - 1]
             (\<lambda>i pd. do { t \<leftarrow> load ?T i; b \<leftarrow> load ?B i; l \<leftarrow> load ?L i; r \<leftarrow> load ?R i;
                           store pd i (?F t b l r) }) (pixel_data info) = Some pd'"
    "length pd' = length (pixel_data info)"
    "\<forall>j<length (pixel_data info). pd' ! j =
         (if int j < ?n then ?F (?T ! j) (?B ! j) (?L ! j) (?R ! j) else pixel_data info ! j)"
    by auto
  have comb: "canny_combine ?T ?B ?L ?R info = Some (info\<lparr>pixel_data := pd'\<rparr>)"
    using c pd'(1) by (simp add: canny_combine_def)
  have cg: "canny_gradient fmul malloc info = Inr (info\<lparr>pixel_data := pd'\<rparr>)"
    using ret im comb by (simp add: canny_gradient_def)
  have "ch (pd' ! i) =
          max (max (ch (?T ! i)) (ch (?B ! i))) (max (ch (?L ! i)) (ch (?R ! i)))"
    if "i < length (pixel_data info)" "ch \<in> {red, green, blue}" for i ch
    using that pd'(3) n(3) by (auto simp: c_MAX_max)
  with cg pd'(2) show "\<exists>out. canny_gradient fmul malloc info = Inr out
               \<and> width out = width info \<and> height out = height info
               \<and> length (pixel_data out) = length (pixel_data info)
               \<and> (\<forall>i<length (pixel_data info). \<forall>ch \<in> {red, green, blue}.
                     ch (pixel_data out ! i) =
                       max (max (ch (?T ! i)) (ch (?B ! i))) (max (ch (?L ! i)) (ch (?R ! i))))"
    by simp
next
  assume "2 \<le> width info \<and> 2 \<le> height info
         \<and> products_fit fmul SOBEL_T_KERNEL \<and> products_fit fmul SOBEL_B_KERNEL
         \<and> products_fit fmul SOBEL_L_KERNEL \<and> products_fit fmul SOBEL_R_KERNEL"
  then show "\<exists>st_t st_b st_l st_r.
            convolve fmul malloc info SOBEL_T_KERNEL = Inr st_t \<and>
            convolve fmul malloc info SOBEL_B_KERNEL = Inr st_b \<and>
            convolve fmul malloc info SOBEL_L_KERNEL = Inr st_l \<and>
            convolve fmul malloc info SOBEL_R_KERNEL = Inr st_r"
    using convolve_total [of info fmul _ malloc new] grid alloc len by simp
qed

theorem canny_gradient_channel_max_witness:
  "pixel_grid \<lparr>width = 3, height = 3, pixel_data =
       [px 10 10 10, px 10 10 10, px 90 90 90,
        px 10 10 10, px 10 10 10, px 90 90 90,
        px 50 50 50, px 50 50 50, px 90 90 90]\<rparr>
   \<and> (\<exists>st_t st_b st_l st_r out.
        convolve exact_product zero_malloc \<lparr>width = 3, height = 3, pixel_data =
           [px 10 10 10, px 10 10 10, px 90 90 90,
            px 10 10 10, px 10 10 10, px 90 90 90,
            px 50 50 50, px 50 50 50, px 90 90 90]\<rparr> SOBEL_T_KERNEL = Inr st_t
      \<and> convolve exact_product zero_malloc \<lparr>width = 3, height = 3, pixel_data =
           [px 10 10 10, px 10 10 10, px 90 90 90,
            px 10 10 10, px 10 10 10, px 90 90 90,
            px 50 50 50, px 50 50 50, px 90 90 90]\<rparr> SOBEL_B_KERNEL = Inr st_b
      \<and> convolve exact_product zero_malloc \<lparr>width = 3, height = 3, pixel_data =
           [px 10 10 10, px 10 10 10, px 90 90 90,
            px 10 10 10, px 10 10 10, px 90 90 90,
            px 50 50 50, px 50 50 50, px 90 90 90]\<rparr> SOBEL_L_KERNEL = Inr st_l
      \<and> convolve exact_product zero_malloc \<lparr>width = 3, height = 3, pixel_data =
           [px 10 10 10, px 10 10 10, px 90 90 90,
            px 10 10 10, px 10 10 10, px 90 90 90,
            px 50 50 50, px 50 50 50, px 90 90 90]\<rparr> SOBEL_R_KERNEL = Inr st_r
      \<and> canny_gradient exact_product zero_malloc \<lparr>width = 3, height = 3, pixel_data =
           [px 10 10 10, px 10 10 10, px 90 90 90,
            px 10 10 10, px 10 10 10, px 90 90 90,
            px 50 50 50, px 50 50 50, px 90 90 90]\<rparr> = Inr out
      \<and> red (pixel_data out ! 4) =
          max (max (red (new_pixel_data st_t ! 4)) (red (new_pixel_data st_b ! 4)))
              (max (red (new_pixel_data st_l ! 4)) (red (new_pixel_data st_r ! 4))))"
proof -
  let ?g = "\<lparr>width = 3, height = 3, pixel_data =
       [px 10 10 10, px 10 10 10, px 90 90 90,
        px 10 10 10, px 10 10 10, px 90 90 90,
        px 50 50 50, px 50 50 50, px 90 90 90]\<rparr>"
  have g: "pixel_grid ?g" by (simp add: pixel_grid_def INT_MAX_def)
  have m: "zero_malloc (3 * (width ?g * height ?g)) = Some (replicate 9 (px 0 0 0))"
    by (simp add: zero_malloc_def sizeof_pixel_info_def eval_nat_numeral)
  have l: "int (length (replicate 9 (px 0 0 0))) = width ?g * height ?g" by simp
  note inst = canny_gradient_channel_max [of ?g zero_malloc "replicate 9 (px 0 0 0)" exact_product, OF g m l]
  from inst [THEN conjunct2] sobel_products_fit obtain st_t st_b st_l st_r where
    ret: "convolve exact_product zero_malloc ?g SOBEL_T_KERNEL = Inr st_t \<and>
          convolve exact_product zero_malloc ?g SOBEL_B_KERNEL = Inr st_b \<and>
          convolve exact_product zero_malloc ?g SOBEL_L_KERNEL = Inr st_l \<and>
          convolve exact_product zero_malloc ?g SOBEL_R_KERNEL = Inr st_r"
    by auto
  from inst [THEN conjunct1, rule_format, OF ret] obtain out where
    out: "canny_gradient exact_product zero_malloc ?g = Inr out"
    and mx: "\<forall>i<length (pixel_data ?g). \<forall>ch \<in> {red, green, blue}.
                     ch (pixel_data out ! i) =
                       max (max (ch (new_pixel_data st_t ! i)) (ch (new_pixel_data st_b ! i)))
                           (max (ch (new_pixel_data st_l ! i)) (ch (new_pixel_data st_r ! i)))"
    by auto
  from mx [rule_format, of 4 red]
  have "red (pixel_data out ! 4) =
          max (max (red (new_pixel_data st_t ! 4)) (red (new_pixel_data st_b ! 4)))
              (max (red (new_pixel_data st_l ! 4)) (red (new_pixel_data st_r ! 4)))"
    by simp
  with g ret out show ?thesis by blast
qed

section \<open>A complete run\<close>

text \<open>
  \<^verbatim>\<open>canny_edge_detection\<close> on a 3 by 3 image with a vertical and a horizontal edge: grey
  scale, gaussian blur, the four Sobel convolutions with their channel-wise maximum, and
  the threshold.
\<close>

lemma canny_edge_detection_example:
  "canny_edge_detection exact_product zero_malloc
     \<lparr>width = 3, height = 3, pixel_data =
        [px 10 10 10, px 10 10 10, px 90 90 90,
         px 10 10 10, px 10 10 10, px 90 90 90,
         px 50 50 50, px 50 50 50, px 90 90 90]\<rparr>
   = Inr \<lparr>width = 3, height = 3, pixel_data =
        [px 0 0 0, px 150 150 150, px 0 0 0,
         px 70 70 70, px 140 140 140, px 0 0 0,
         px 0 0 0, px 130 130 130, px 0 0 0]\<rparr>"
  by code_simp

end
